theory Spec2Isabelle
  imports Complex_Main "HOL-Library.AList" "HOL-Library.Char_ord" "HOL-Library.List_Lexorder"
    "HOL-Library.Multiset"
begin

section \<open>JavaScript numbers and built-ins used by the table engine\<close>

text \<open>
  The engine of \<^verbatim>\<open>App.tsx\<close> (the \<^verbatim>\<open>evaluationTable\<close>, \<^verbatim>\<open>handleSort\<close> and
  \<^verbatim>\<open>chartSeries\<close> members of the component) computes with JavaScript numbers.
  A number is modelled as an exact rational or one of the three special values; counts,
  totals and bin starts are integers (\<^typ>\<open>int\<close>), which doubles represent exactly
  below \<open>2^53\<close>. Rounding of quotients, overflow to an infinity and the sign of zero
  are not modelled.
\<close>

datatype jsnum = Fin rat | PInf | NInf | NaN

fun isNaN :: "jsnum \<Rightarrow> bool" where
  "isNaN NaN = True"
| "isNaN _ = False"

fun isFinite :: "jsnum \<Rightarrow> bool" where
  "isFinite (Fin _) = True"
| "isFinite _ = False"

text \<open>\<^verbatim>\<open>a - b\<close>, \<^verbatim>\<open>a * b\<close> and \<^verbatim>\<open>a / b\<close> of IEEE arithmetic on these values.\<close>

fun js_neg :: "jsnum \<Rightarrow> jsnum" where
  "js_neg (Fin a) = Fin (- a)"
| "js_neg PInf = NInf"
| "js_neg NInf = PInf"
| "js_neg NaN = NaN"

fun js_sub :: "jsnum \<Rightarrow> jsnum \<Rightarrow> jsnum" where
  "js_sub (Fin a) (Fin b) = Fin (a - b)"
| "js_sub NaN _ = NaN"
| "js_sub _ NaN = NaN"
| "js_sub PInf PInf = NaN"
| "js_sub NInf NInf = NaN"
| "js_sub PInf _ = PInf"
| "js_sub NInf _ = NInf"
| "js_sub (Fin a) PInf = NInf"
| "js_sub (Fin a) NInf = PInf"

fun js_mul :: "jsnum \<Rightarrow> jsnum \<Rightarrow> jsnum" where
  "js_mul (Fin a) (Fin b) = Fin (a * b)"
| "js_mul NaN _ = NaN"
| "js_mul _ NaN = NaN"
| "js_mul (Fin a) PInf = (if a = 0 then NaN else if 0 < a then PInf else NInf)"
| "js_mul (Fin a) NInf = (if a = 0 then NaN else if 0 < a then NInf else PInf)"
| "js_mul PInf (Fin b) = (if b = 0 then NaN else if 0 < b then PInf else NInf)"
| "js_mul NInf (Fin b) = (if b = 0 then NaN else if 0 < b then NInf else PInf)"
| "js_mul PInf PInf = PInf"
| "js_mul NInf NInf = PInf"
| "js_mul PInf NInf = NInf"
| "js_mul NInf PInf = NInf"

text \<open>Division of two finite numbers: a zero divisor gives \<^verbatim>\<open>NaN\<close> or an infinity.\<close>

definition js_div :: "rat \<Rightarrow> rat \<Rightarrow> jsnum" where
  "js_div a b =
     (if b = 0 then (if a = 0 then NaN else if 0 < a then PInf else NInf)
      else Fin (a / b))"

subsection \<open>\<^verbatim>\<open>Number(string)\<close>\<close>

text \<open>
  The ECMAScript conversion \<^verbatim>\<open>StringToNumber\<close>: white space is trimmed, the empty
  string is \<open>0\<close>, then a \<^verbatim>\<open>0x\<close>/\<^verbatim>\<open>0o\<close>/\<^verbatim>\<open>0b\<close> integer or a signed decimal
  literal (digits, optional fraction and exponent, or \<^verbatim>\<open>Infinity\<close>); anything else
  is \<^verbatim>\<open>NaN\<close>. Strings are byte strings here, so only the ASCII white space is trimmed.
\<close>

definition isWhite :: "char \<Rightarrow> bool" where
  "isWhite c = (c \<in> set [CHR '' '', CHR 0x09, CHR 0x0A, CHR 0x0B, CHR 0x0C, CHR 0x0D])"

definition trim :: "string \<Rightarrow> string" where
  "trim s = rev (dropWhile isWhite (rev (dropWhile isWhite s)))"

definition digitOf :: "char \<Rightarrow> nat option" where
  "digitOf c =
     (let n = (of_char c :: nat) in
      if 48 \<le> n \<and> n \<le> 57 then Some (n - 48)
      else if 97 \<le> n \<and> n \<le> 102 then Some (n - 87)
      else if 65 \<le> n \<and> n \<le> 70 then Some (n - 55)
      else None)"

definition isDigitIn :: "nat \<Rightarrow> char \<Rightarrow> bool" where
  "isDigitIn radix c = (case digitOf c of None \<Rightarrow> False | Some d \<Rightarrow> d < radix)"

definition digitsVal :: "nat \<Rightarrow> string \<Rightarrow> nat" where
  "digitsVal radix s = foldl (\<lambda>acc c. acc * radix + (case digitOf c of None \<Rightarrow> 0 | Some d \<Rightarrow> d)) 0 s"

definition parseRadix :: "nat \<Rightarrow> string \<Rightarrow> jsnum" where
  "parseRadix radix s =
     (if s \<noteq> [] \<and> list_all (isDigitIn radix) s then Fin (of_nat (digitsVal radix s)) else NaN)"

definition parseExponent :: "string \<Rightarrow> int option" where
  "parseExponent s =
     (case s of
        [] \<Rightarrow> Some 0
      | c # r \<Rightarrow>
          if c = CHR ''e'' \<or> c = CHR ''E'' then
            (let (neg, ds) = (case r of
                                d # t \<Rightarrow> if d = CHR ''-'' then (True, t)
                                         else if d = CHR ''+'' then (False, t) else (False, r)
                              | [] \<Rightarrow> (False, r))
             in if ds \<noteq> [] \<and> list_all (isDigitIn 10) ds
                then Some (if neg then - int (digitsVal 10 ds) else int (digitsVal 10 ds))
                else None)
          else None)"

definition pow10 :: "int \<Rightarrow> rat" where
  "pow10 e = (if 0 \<le> e then 10 ^ nat e else 1 / 10 ^ nat (- e))"

definition parseDecimal :: "string \<Rightarrow> rat option" where
  "parseDecimal s =
     (let ip = takeWhile (isDigitIn 10) s;
          r1 = dropWhile (isDigitIn 10) s;
          (fp, r2) = (case r1 of
                        c # t \<Rightarrow> if c = CHR ''.''
                                 then (takeWhile (isDigitIn 10) t, dropWhile (isDigitIn 10) t)
                                 else ([], r1)
                      | [] \<Rightarrow> ([], r1))
      in if ip = [] \<and> fp = [] then None
         else (case parseExponent r2 of
                 None \<Rightarrow> None
               | Some e \<Rightarrow>
                   Some ((of_nat (digitsVal 10 ip)
                          + of_nat (digitsVal 10 fp) / 10 ^ length fp) * pow10 e)))"

definition Number_str :: "string \<Rightarrow> jsnum" where
  "Number_str s =
     (let t = trim s in
      if t = [] then Fin 0
      else if take 2 t \<in> set [''0x'', ''0X''] then parseRadix 16 (drop 2 t)
      else if take 2 t \<in> set [''0o'', ''0O''] then parseRadix 8 (drop 2 t)
      else if take 2 t \<in> set [''0b'', ''0B''] then parseRadix 2 (drop 2 t)
      else
        (let (neg, u) = (if hd t = CHR ''-'' then (True, tl t)
                         else if hd t = CHR ''+'' then (False, tl t) else (False, t))
         in if u = ''Infinity'' then (if neg then NInf else PInf)
            else (case parseDecimal u of
                    None \<Rightarrow> NaN
                  | Some q \<Rightarrow> Fin (if neg then - q else q))))"

text \<open>\<^verbatim>\<open>Number(x)\<close> for an optional string: \<^verbatim>\<open>Number(undefined)\<close> is \<^verbatim>\<open>NaN\<close>.\<close>

definition Number_opt :: "string option \<Rightarrow> jsnum" where
  "Number_opt x = (case x of None \<Rightarrow> NaN | Some s \<Rightarrow> Number_str s)"

subsection \<open>Template strings of integers\<close>

text \<open>\<^verbatim>\<open>`${n}`\<close> for an integer \<open>n\<close> (decimal notation, as JavaScript prints below \<open>10^21\<close>).\<close>

fun showNat :: "nat \<Rightarrow> string" where
  "showNat n =
     (if n < 10 then [''0123456789'' ! n]
      else showNat (n div 10) @ [''0123456789'' ! (n mod 10)])"

declare showNat.simps [simp del]

definition showInt :: "int \<Rightarrow> string" where
  "showInt i = (if i < 0 then CHR ''-'' # showNat (nat (- i)) else showNat (nat i))"

subsection \<open>\<^verbatim>\<open>Array.prototype.sort\<close> with a comparator\<close>

text \<open>
  ECMAScript's \<^verbatim>\<open>SortCompare\<close> reads the comparator's result \<open>v\<close> as: \<^verbatim>\<open>NaN\<close> counts as
  \<open>0\<close>; \<open>v > 0\<close> puts the first argument after the second. The sort is stable, so for a
  consistent comparator its result is the stable insertion of every element, which is
  what \<open>sort_js\<close> computes.
\<close>

fun sortPos :: "jsnum \<Rightarrow> bool" where
  "sortPos (Fin v) = (0 < v)"
| "sortPos PInf = True"
| "sortPos _ = False"

fun sortNeg :: "jsnum \<Rightarrow> bool" where
  "sortNeg (Fin v) = (v < 0)"
| "sortNeg NInf = True"
| "sortNeg _ = False"

fun insort_js :: "('a \<Rightarrow> 'a \<Rightarrow> jsnum) \<Rightarrow> 'a \<Rightarrow> 'a list \<Rightarrow> 'a list" where
  "insort_js cmp x [] = [x]"
| "insort_js cmp x (y # ys) =
     (if sortPos (cmp x y) then y # insort_js cmp x ys else x # y # ys)"

definition sort_js :: "('a \<Rightarrow> 'a \<Rightarrow> jsnum) \<Rightarrow> 'a list \<Rightarrow> 'a list" where
  "sort_js cmp xs = foldr (insort_js cmp) xs []"

section \<open>Data model\<close>

text \<open>
  \<^verbatim>\<open>Record<string, number>\<close> and \<^verbatim>\<open>Map<string, number>\<close> are association lists in the
  order \<^verbatim>\<open>Object.entries\<close> (or the map's iteration) yields them; a JavaScript object
  never repeats a key. \<^verbatim>\<open>map.set(k, v)\<close> and the assignment \<^verbatim>\<open>rec[k] = v\<close> are
  \<^const>\<open>AList.update\<close>: an existing key keeps its place, a new one is appended.
  \<open>lookup0\<close> is \<^verbatim>\<open>map.get(k) ?? 0\<close>, and \<^verbatim>\<open>rec[k] ?? 0\<close> for the objects of the pivot,
  whose keys are year labels.
\<close>

type_synonym counts = "(string \<times> int) list"

definition lookup0 :: "counts \<Rightarrow> string \<Rightarrow> int" where
  "lookup0 r k = (case map_of r k of None \<Rightarrow> 0 | Some v \<Rightarrow> v)"

text \<open>
  The counts of a document are an object made by \<^verbatim>\<open>JSON.parse\<close>, and its keys are
  free text. Reading \<^verbatim>\<open>obj[k]\<close> gives the number of an own key; for any other key
  the lookup goes on to \<^verbatim>\<open>Object.prototype\<close>, whose members are functions (and, for
  \<^verbatim>\<open>__proto__\<close>, the prototype object itself): such a value is not nullish, so
  \<^verbatim>\<open>obj[k] ?? 0\<close> keeps it. In arithmetic it converts to \<^verbatim>\<open>NaN\<close>.
\<close>

definition objectPrototypeMembers :: "string list" where
  "objectPrototypeMembers =
     [''constructor'', ''hasOwnProperty'', ''isPrototypeOf'', ''propertyIsEnumerable'',
      ''toLocaleString'', ''toString'', ''valueOf'', ''__proto__'', ''__defineGetter__'',
      ''__defineSetter__'', ''__lookupGetter__'', ''__lookupSetter__'']"

datatype jsval = Num int | Inherited string

definition propOr0 :: "counts \<Rightarrow> string \<Rightarrow> jsval" where
  "propOr0 obj k =
     (case map_of obj k of
        Some v \<Rightarrow> Num v
      | None \<Rightarrow> if k \<in> set objectPrototypeMembers then Inherited k else Num 0)"

fun toNumber :: "jsval \<Rightarrow> jsnum" where
  "toNumber (Num v) = Fin (of_int v)"
| "toNumber (Inherited k) = NaN"

record CorpusMeta =
  meta_dhlabid :: "string option"
  meta_urn :: "string option"
  meta_title :: "string option"
  meta_authors :: "string option"
  meta_year :: "string option"

record TableRow =
  row_id :: string
  row_values :: counts
  row_total :: int

datatype ColumnKind = KCount | KPercent

record ColumnDef =
  col_key :: string
  col_label :: string
  col_kind :: ColumnKind
  col_year :: "string option"

datatype SortDir = asc | desc

datatype TableMode = ModeTopics | ModeDocs

record Table =
  tbl_mode :: TableMode
  tbl_rows :: "TableRow list"
  tbl_columns :: "ColumnDef list"
  tbl_totalRows :: nat
  tbl_yearTotals :: "counts option"

text \<open>The component state that \<^verbatim>\<open>evaluationTable\<close>, \<^verbatim>\<open>handleSort\<close> and \<^verbatim>\<open>chartSeries\<close> read.\<close>

record AppState =
  evaluateData :: "(string \<times> counts) list option"
  corpusMetaById :: "string \<Rightarrow> CorpusMeta option"
  corpusMetaByUrn :: "string \<Rightarrow> CorpusMeta option"
  sortKey :: string
  sortDir :: SortDir
  totalThreshold :: rat
  aggregateByYear :: bool
  yearBinSize :: rat
  aggregatePercent :: bool
  hiddenSeries :: "string set"

section \<open>The table builder \<^verbatim>\<open>evaluationTable\<close>\<close>

subsection \<open>Topic universe and per-document totals\<close>

text \<open>
  \<^verbatim>\<open>Array.from(topicSet).sort()\<close>: the keys of all documents, without repetition, in
  the default order of strings (by code units; here by bytes, the same for ASCII names).
\<close>

definition topicsOf :: "(string \<times> counts) list \<Rightarrow> string list" where
  "topicsOf rows = sort (remdups (concat (map (\<lambda>(docId, topics). map fst topics) rows)))"

record RowWithTotal =
  docId :: string
  topics :: counts
  total :: int

text \<open>Counts are numbers by their declared type, so \<^verbatim>\<open>typeof value === 'number'\<close> holds.\<close>

definition sumValues :: "counts \<Rightarrow> int" where
  "sumValues ts = foldl (\<lambda>sum (key, value). sum + value) 0 ts"

definition rowsWithTotals :: "(string \<times> counts) list \<Rightarrow> RowWithTotal list" where
  "rowsWithTotals rows =
     map (\<lambda>(d, ts). \<lparr>docId = d, topics = ts, total = sumValues ts\<rparr>) rows"

subsection \<open>Year bins\<close>

text \<open>\<^verbatim>\<open>Math.max(1, Math.floor(yearBinSize || 1))\<close>; \<open>0\<close> is the only falsy finite number.\<close>

definition binSize :: "rat \<Rightarrow> int" where
  "binSize ybs = max 1 \<lfloor>if ybs = 0 then 1 else ybs\<rfloor>"

definition yearValueOf :: "(string \<Rightarrow> CorpusMeta option) \<Rightarrow> string \<Rightarrow> jsnum" where
  "yearValueOf metaLookup d =
     Number_opt (case metaLookup d of None \<Rightarrow> None | Some m \<Rightarrow> meta_year m)"

definition hasYear :: "(string \<Rightarrow> CorpusMeta option) \<Rightarrow> string \<Rightarrow> bool" where
  "hasYear metaLookup d =
     (\<not> isNaN (yearValueOf metaLookup d) \<and> isFinite (yearValueOf metaLookup d))"

definition binStart :: "int \<Rightarrow> rat \<Rightarrow> int" where
  "binStart bs y = \<lfloor>y / of_int bs\<rfloor> * bs"

definition binLabel :: "int \<Rightarrow> int \<Rightarrow> string" where
  "binLabel bs start =
     (if bs > 1 then showInt start @ ''-'' @ showInt (start + bs - 1) else showInt start)"

text \<open>
  \<^verbatim>\<open>getYearLabel\<close> returns the label, or \<^verbatim>\<open>null\<close> without a usable year, and records
  the bin in \<^verbatim>\<open>yearBins\<close>, which is passed through. Only a finite number passes
  \<^verbatim>\<open>hasYear\<close>.
\<close>

definition getYearLabel ::
  "(string \<Rightarrow> CorpusMeta option) \<Rightarrow> int \<Rightarrow> string \<Rightarrow> (string \<times> int) list
     \<Rightarrow> string option \<times> (string \<times> int) list" where
  "getYearLabel metaLookup bs d yearBins =
     (case yearValueOf metaLookup d of
        Fin yearValue \<Rightarrow>
          (let start = binStart bs yearValue;
               label = binLabel bs start
           in (Some label, AList.update label start yearBins))
      | _ \<Rightarrow> (None, yearBins))"

subsection \<open>Pivot by year\<close>

record PivotState =
  topicRows :: "TableRow list"
  yearTotals :: counts
  yearBins :: "(string \<times> int) list"

text \<open>
  The body of the inner \<^verbatim>\<open>forEach\<close>. \<^verbatim>\<open>rowMap\<close> maps an id to the row object of
  \<^verbatim>\<open>topicRows\<close> with that id (the ids are the distinct topics), so mutating
  \<^verbatim>\<open>currentRow\<close> updates that element of \<^verbatim>\<open>topicRows\<close>.
\<close>

definition addCount :: "string \<Rightarrow> PivotState \<Rightarrow> string \<times> int \<Rightarrow> PivotState" where
  "addCount label st tv =
     (let topic = fst tv; increment = snd tv in
      if \<not> (\<exists>r \<in> set (topicRows st). row_id r = topic) then st
      else st\<lparr>topicRows :=
                 map (\<lambda>currentRow.
                        if row_id currentRow = topic
                        then currentRow\<lparr>row_values :=
                                          AList.update label
                                            (lookup0 (row_values currentRow) label + increment)
                                            (row_values currentRow),
                                        row_total := row_total currentRow + increment\<rparr>
                        else currentRow)
                     (topicRows st),
               yearTotals :=
                 AList.update label (lookup0 (yearTotals st) label + increment) (yearTotals st)\<rparr>)"

definition pivotDoc ::
  "(string \<Rightarrow> CorpusMeta option) \<Rightarrow> int \<Rightarrow> PivotState \<Rightarrow> RowWithTotal \<Rightarrow> PivotState" where
  "pivotDoc metaLookup bs st row =
     (case getYearLabel metaLookup bs (docId row) (yearBins st) of
        (None, yb) \<Rightarrow> st\<lparr>yearBins := yb\<rparr>
      | (Some label, yb) \<Rightarrow> foldl (addCount label) (st\<lparr>yearBins := yb\<rparr>) (topics row))"

definition emptyRows :: "string list \<Rightarrow> TableRow list" where
  "emptyRows ts = map (\<lambda>topic. \<lparr>row_id = topic, row_values = [], row_total = 0\<rparr>) ts"

definition pivot ::
  "(string \<Rightarrow> CorpusMeta option) \<Rightarrow> int \<Rightarrow> string list \<Rightarrow> RowWithTotal list \<Rightarrow> PivotState" where
  "pivot metaLookup bs ts rows =
     foldl (pivotDoc metaLookup bs)
       \<lparr>topicRows = emptyRows ts, yearTotals = [], yearBins = []\<rparr> rows"

definition yearLabelsOf :: "(string \<times> int) list \<Rightarrow> string list" where
  "yearLabelsOf yb = map fst (sort_js (\<lambda>a b. Fin (of_int (snd a - snd b))) yb)"

definition columnDefsOf :: "bool \<Rightarrow> string list \<Rightarrow> ColumnDef list" where
  "columnDefsOf pct labels =
     concat (map (\<lambda>label.
                    \<lparr>col_key = label @ ''__count'', col_label = label, col_kind = KCount,
                      col_year = Some label\<rparr>
                    # (if pct
                       then [\<lparr>col_key = label @ ''__percent'', col_label = label @ '' %'',
                              col_kind = KPercent, col_year = Some label\<rparr>]
                       else []))
                 labels)"

subsection \<open>Comparators\<close>

text \<open>
  \<^verbatim>\<open>String.prototype.localeCompare(_, 'nb')\<close> is the platform's Norwegian collation; it
  is a parameter \<open>lc\<close> of the model, returning a negative, zero or positive integer.
\<close>

definition direction :: "SortDir \<Rightarrow> jsnum" where
  "direction d = (if d = asc then Fin 1 else Fin (- 1))"

text \<open>\<^verbatim>\<open>column.year ?? ''\<close>\<close>

definition yearKey :: "ColumnDef \<Rightarrow> string" where
  "yearKey column = (case col_year column of None \<Rightarrow> [] | Some y \<Rightarrow> y)"

text \<open>The operand of the percent comparator: \<^verbatim>\<open>denom > 0 ? (row.values[year] ?? 0) / denom : 0\<close>.\<close>

definition percentSortValue :: "counts \<Rightarrow> ColumnDef \<Rightarrow> TableRow \<Rightarrow> jsnum" where
  "percentSortValue yt column row =
     (let denom = lookup0 yt (yearKey column) in
      if denom > 0
      then js_div (of_int (lookup0 (row_values row) (yearKey column))) (of_int denom)
      else Fin 0)"

definition topicCompare ::
  "(string \<Rightarrow> string \<Rightarrow> int) \<Rightarrow> string \<Rightarrow> SortDir \<Rightarrow> ColumnDef list \<Rightarrow> counts
     \<Rightarrow> TableRow \<Rightarrow> TableRow \<Rightarrow> jsnum" where
  "topicCompare lc key dir columnDefs yt a b =
     (if key = ''row'' then
        js_mul (direction dir) (Fin (of_int (lc (row_id a) (row_id b))))
      else if key = ''total'' then
        js_mul (direction dir) (Fin (of_int (row_total a - row_total b)))
      else
        (case find (\<lambda>def. col_key def = key) columnDefs of
           None \<Rightarrow> Fin 0
         | Some column \<Rightarrow>
             (case col_kind column of
                KCount \<Rightarrow>
                  js_mul (direction dir)
                    (Fin (of_int (lookup0 (row_values a) (yearKey column)
                                  - lookup0 (row_values b) (yearKey column))))
              | KPercent \<Rightarrow>
                  js_mul (direction dir)
                    (js_sub (percentSortValue yt column a) (percentSortValue yt column b)))))"

text \<open>\<^verbatim>\<open>metaLookup[id]?.[field] ?? corpusMetaByUrn[id]?.[field]\<close>\<close>

definition metaChain ::
  "AppState \<Rightarrow> (CorpusMeta \<Rightarrow> string option) \<Rightarrow> string \<Rightarrow> string option" where
  "metaChain st field d =
     (case (case corpusMetaById st d of None \<Rightarrow> None | Some m \<Rightarrow> field m) of
        Some v \<Rightarrow> Some v
      | None \<Rightarrow> (case corpusMetaByUrn st d of None \<Rightarrow> None | Some m \<Rightarrow> field m))"

definition metaText :: "AppState \<Rightarrow> string \<Rightarrow> string" where
  "metaText st d =
     (case metaChain st (if sortKey st = ''title'' then meta_title else meta_authors) d of
        None \<Rightarrow> []
      | Some v \<Rightarrow> v)"

text \<open>\<^verbatim>\<open>Number(metaLookup[id]?.year ?? corpusMetaByUrn[id]?.year ?? 0)\<close>\<close>

definition yearSortValue :: "AppState \<Rightarrow> string \<Rightarrow> jsnum" where
  "yearSortValue st d =
     (case metaChain st meta_year d of None \<Rightarrow> Fin 0 | Some y \<Rightarrow> Number_str y)"

definition docCompare ::
  "(string \<Rightarrow> string \<Rightarrow> int) \<Rightarrow> AppState \<Rightarrow> string list \<Rightarrow> TableRow \<Rightarrow> TableRow \<Rightarrow> jsnum" where
  "docCompare lc st ts a b =
     (if sortKey st = ''dhlabid'' \<or> sortKey st = ''row'' then
        js_mul (direction (sortDir st)) (Fin (of_int (lc (row_id a) (row_id b))))
      else if sortKey st = ''total'' then
        js_mul (direction (sortDir st)) (Fin (of_int (row_total a - row_total b)))
      else if sortKey st = ''title'' \<or> sortKey st = ''authors'' then
        js_mul (direction (sortDir st))
          (Fin (of_int (lc (metaText st (row_id a)) (metaText st (row_id b)))))
      else if sortKey st = ''year'' then
        js_mul (direction (sortDir st))
          (js_sub (yearSortValue st (row_id a)) (yearSortValue st (row_id b)))
      else if sortKey st \<in> set ts then
        js_mul (direction (sortDir st))
          (js_sub (toNumber (propOr0 (row_values a) (sortKey st)))
                  (toNumber (propOr0 (row_values b) (sortKey st))))
      else Fin 0)"

subsection \<open>The table\<close>

definition filtered :: "rat \<Rightarrow> TableRow list \<Rightarrow> TableRow list" where
  "filtered threshold sortedRows =
     (if threshold > 0 then filter (\<lambda>row. of_int (row_total row) \<ge> threshold) sortedRows
      else sortedRows)"

definition docRowsOf :: "RowWithTotal list \<Rightarrow> TableRow list" where
  "docRowsOf rwt =
     map (\<lambda>row. \<lparr>row_id = docId row, row_values = topics row, row_total = total row\<rparr>) rwt"

definition evaluationTable :: "(string \<Rightarrow> string \<Rightarrow> int) \<Rightarrow> AppState \<Rightarrow> Table option" where
  "evaluationTable lc st =
     (case evaluateData st of
        None \<Rightarrow> None
      | Some rows \<Rightarrow>
          (let ts = topicsOf rows;
               rwt = rowsWithTotals rows;
               bs = binSize (yearBinSize st)
           in if aggregateByYear st then
                (let p = pivot (corpusMetaById st) bs ts rwt;
                     columnDefs = columnDefsOf (aggregatePercent st) (yearLabelsOf (yearBins p));
                     sortedRows = sort_js (topicCompare lc (sortKey st) (sortDir st) columnDefs
                                         (yearTotals p)) (topicRows p)
                 in Some \<lparr>tbl_mode = ModeTopics,
                           tbl_rows = filtered (totalThreshold st) sortedRows,
                           tbl_columns = columnDefs,
                           tbl_totalRows = length (topicRows p),
                           tbl_yearTotals = Some (yearTotals p)\<rparr>)
              else
                (let docRows = docRowsOf rwt;
                     sortedRows = sort_js (docCompare lc st ts) docRows
                 in Some \<lparr>tbl_mode = ModeDocs,
                           tbl_rows = filtered (totalThreshold st) sortedRows,
                           tbl_columns =
                             map (\<lambda>topic. \<lparr>col_key = topic, col_label = topic,
                                            col_kind = KCount, col_year = None\<rparr>) ts,
                           tbl_totalRows = length docRows,
                           tbl_yearTotals = None\<rparr>)))"

section \<open>\<^verbatim>\<open>handleSort\<close>\<close>

definition handleSort :: "string \<Rightarrow> AppState \<Rightarrow> AppState" where
  "handleSort key st =
     (if sortKey st = key then st\<lparr>sortDir := (if sortDir st = asc then desc else asc)\<rparr>
      else st\<lparr>sortKey := key,
              sortDir := (if key = ''title'' \<or> key = ''authors'' \<or> key = ''dhlabid''
                          then asc else desc)\<rparr>)"

section \<open>Percent values shown in the table and in the chart\<close>

text \<open>\<^verbatim>\<open>evaluationTable.yearTotals?.get(column.year ?? '') ?? 0\<close>\<close>

definition denomOf :: "Table \<Rightarrow> ColumnDef \<Rightarrow> int" where
  "denomOf tbl column =
     (case tbl_yearTotals tbl of None \<Rightarrow> 0 | Some yt \<Rightarrow> lookup0 yt (yearKey column))"

text \<open>\<^verbatim>\<open>denom > 0 ? (value / denom) * 100 : 0\<close>\<close>

definition percentOf :: "int \<Rightarrow> int \<Rightarrow> jsnum" where
  "percentOf v denom =
     (if denom > 0 then js_mul (js_div (of_int v) (of_int denom)) (Fin 100) else Fin 0)"

text \<open>
  What a cell of the by-document table reads and shows, the rows' values being the parsed
  objects: \<^verbatim>\<open>row.values?.[column.year ?? column.key] ?? 0\<close>.
\<close>

definition valueOfCell :: "TableRow \<Rightarrow> ColumnDef \<Rightarrow> jsval" where
  "valueOfCell row column =
     propOr0 (row_values row) (case col_year column of None \<Rightarrow> col_key column | Some y \<Rightarrow> y)"

text \<open>
  The number a table cell shows (the \<^verbatim>\<open>td\<close> of a row and a column) when the read
  gives a number, as it always does in the pivoted table, whose keys are year labels.
\<close>

definition cellValue :: "Table \<Rightarrow> TableRow \<Rightarrow> ColumnDef \<Rightarrow> jsnum" where
  "cellValue tbl row column =
     (let v = lookup0 (row_values row)
                (case col_year column of None \<Rightarrow> col_key column | Some y \<Rightarrow> y)
      in if col_kind column = KPercent \<and> tbl_mode tbl = ModeTopics
         then percentOf v (denomOf tbl column)
         else Fin (of_int v))"

record Series =
  series_id :: string
  series_values :: "jsnum list"

record Chart =
  chart_years :: "string list"
  chart_series :: "Series list"

definition chartValue :: "Table \<Rightarrow> bool \<Rightarrow> TableRow \<Rightarrow> ColumnDef \<Rightarrow> jsnum" where
  "chartValue tbl pct row column =
     (let raw = lookup0 (row_values row) (yearKey column) in
      if pct then percentOf raw (denomOf tbl column) else Fin (of_int raw))"

text \<open>
  \<^verbatim>\<open>chartSeries\<close>: the years and the series of the five visible rows of highest total
  (the scaling fields \<^verbatim>\<open>maxValue\<close> and \<^verbatim>\<open>tickIndices\<close> are left out).
\<close>

definition chartSeries :: "Table option \<Rightarrow> AppState \<Rightarrow> Chart option" where
  "chartSeries evalTable st =
     (case evalTable of
        None \<Rightarrow> None
      | Some tbl \<Rightarrow>
          if tbl_mode tbl \<noteq> ModeTopics then None
          else
            (let yearColumns =
                   filter (\<lambda>column. col_kind column = KCount
                                     \<and> col_year column \<noteq> None \<and> col_year column \<noteq> Some [])
                     (tbl_columns tbl)
             in if yearColumns = [] then None
                else
                  (let years = map (\<lambda>column. case col_year column of
                                                 None \<Rightarrow> col_label column | Some y \<Rightarrow> y)
                                 yearColumns;
                       sortedRows = sort_js (\<lambda>a b. Fin (of_int (row_total b - row_total a)))
                                      (tbl_rows tbl);
                       visibleRows = filter (\<lambda>row. row_id row \<notin> hiddenSeries st) sortedRows;
                       topRows = take 5 visibleRows
                   in Some \<lparr>chart_years = years,
                             chart_series =
                               map (\<lambda>row. \<lparr>series_id = row_id row,
                                            series_values =
                                              map (chartValue tbl (aggregatePercent st) row)
                                                yearColumns\<rparr>)
                                 topRows\<rparr>)))"

section \<open>The revision of the builder with an \<^verbatim>\<open>'Ukjent'\<close> bin\<close>

text \<open>
  An earlier revision of \<^verbatim>\<open>evaluationTable\<close> in the same file differs in
  \<^verbatim>\<open>getYearLabel\<close> only: a document without a usable year gets the label
  \<^verbatim>\<open>'Ukjent'\<close> with sort value \<open>-1\<close>, and the pivot loop has no early return.
\<close>

definition getYearLabel_ukjent ::
  "(string \<Rightarrow> CorpusMeta option) \<Rightarrow> int \<Rightarrow> string \<Rightarrow> (string \<times> int) list
     \<Rightarrow> string \<times> (string \<times> int) list" where
  "getYearLabel_ukjent metaLookup bs d yb =
     (case yearValueOf metaLookup d of
        Fin yearValue \<Rightarrow>
          (let start = binStart bs yearValue;
               label = binLabel bs start
           in (label, AList.update label start yb))
      | _ \<Rightarrow> (''Ukjent'', AList.update ''Ukjent'' (- 1) yb))"

definition pivotDoc_ukjent ::
  "(string \<Rightarrow> CorpusMeta option) \<Rightarrow> int \<Rightarrow> PivotState \<Rightarrow> RowWithTotal \<Rightarrow> PivotState" where
  "pivotDoc_ukjent metaLookup bs st row =
     (case getYearLabel_ukjent metaLookup bs (docId row) (yearBins st) of
        (label, yb) \<Rightarrow> foldl (addCount label) (st\<lparr>yearBins := yb\<rparr>) (topics row))"

definition pivot_ukjent ::
  "(string \<Rightarrow> CorpusMeta option) \<Rightarrow> int \<Rightarrow> string list \<Rightarrow> RowWithTotal list \<Rightarrow> PivotState" where
  "pivot_ukjent metaLookup bs ts rows =
     foldl (pivotDoc_ukjent metaLookup bs)
       \<lparr>topicRows = emptyRows ts, yearTotals = [], yearBins = []\<rparr> rows"

section \<open>Notions used in the statements\<close>

text \<open>
  A comparator is consistent on a set when "after" mirrors "before" and "before" is
  transitive; it is untied when it never reports two different elements as equal.
\<close>

definition consistent_on :: "'a set \<Rightarrow> ('a \<Rightarrow> 'a \<Rightarrow> jsnum) \<Rightarrow> bool" where
  "consistent_on S cmp \<longleftrightarrow>
     (\<forall>a\<in>S. \<forall>b\<in>S. sortPos (cmp a b) \<longleftrightarrow> sortNeg (cmp b a)) \<and>
     (\<forall>a\<in>S. \<forall>b\<in>S. \<forall>c\<in>S. sortNeg (cmp a b) \<and> sortNeg (cmp b c) \<longrightarrow> sortNeg (cmp a c))"

definition untied_on :: "'a set \<Rightarrow> ('a \<Rightarrow> 'a \<Rightarrow> jsnum) \<Rightarrow> bool" where
  "untied_on S cmp \<longleftrightarrow>
     (\<forall>a\<in>S. \<forall>b\<in>S. a \<noteq> b \<longrightarrow> sortPos (cmp a b) \<or> sortNeg (cmp a b))"

text \<open>What is required of the collation: it orders strings consistently.\<close>

definition collation :: "(string \<Rightarrow> string \<Rightarrow> int) \<Rightarrow> bool" where
  "collation lc \<longleftrightarrow>
     (\<forall>s t. 0 < lc s t \<longleftrightarrow> lc t s < 0) \<and>
     (\<forall>s t u. lc s t < 0 \<and> lc t u < 0 \<longrightarrow> lc s u < 0)"

text \<open>
  The year a document sorts by if a missing or non-numeric year counted as \<open>0\<close>, and
  the documents for which the year is missing or a finite number.
\<close>

definition yearOrZero :: "AppState \<Rightarrow> string \<Rightarrow> rat" where
  "yearOrZero st d =
     (case metaChain st meta_year d of
        None \<Rightarrow> 0
      | Some y \<Rightarrow> (case Number_str y of Fin q \<Rightarrow> q | _ \<Rightarrow> 0))"

definition yearMissingOrFinite :: "AppState \<Rightarrow> string \<Rightarrow> bool" where
  "yearMissingOrFinite st d =
     (case metaChain st meta_year d of None \<Rightarrow> True | Some y \<Rightarrow> isFinite (Number_str y))"

text \<open>The bins of the documents that have a usable year, one per such document.\<close>

definition binsOf ::
  "(string \<Rightarrow> CorpusMeta option) \<Rightarrow> int \<Rightarrow> RowWithTotal list \<Rightarrow> (string \<times> int) list" where
  "binsOf m bs rows =
     concat (map (\<lambda>row. case yearValueOf m (docId row) of
                          Fin y \<Rightarrow> [(binLabel bs (binStart bs y), binStart bs y)]
                        | _ \<Rightarrow> [])
               rows)"

subsection \<open>Sample inputs\<close>

text \<open>A collation for the examples: the order of the strings' bytes.\<close>

definition compareBytes :: "string \<Rightarrow> string \<Rightarrow> int" where
  "compareBytes s t = (if s < t then - 1 else if s = t then 0 else 1)"

definition metaOfYear :: "string option \<Rightarrow> CorpusMeta" where
  "metaOfYear y =
     \<lparr>meta_dhlabid = None, meta_urn = None, meta_title = None, meta_authors = None,
      meta_year = y\<rparr>"

text \<open>
  The two documents of the specification's scenarios: \<^verbatim>\<open>doc1\<close> of 1994 and
  \<^verbatim>\<open>doc2\<close> of 1988, sorted by total, descending, as the component starts.
\<close>

definition exampleData :: "(string \<times> counts) list" where
  "exampleData = [(''doc1'', [(''nature'', 3), (''war'', 0)]), (''doc2'', [(''nature'', 5)])]"

definition exampleMeta :: "string \<Rightarrow> CorpusMeta option" where
  "exampleMeta =
     map_of [(''doc1'', metaOfYear (Some ''1994'')), (''doc2'', metaOfYear (Some ''1988''))]"

definition exampleState :: AppState where
  "exampleState =
     \<lparr>evaluateData = Some exampleData,
      corpusMetaById = exampleMeta,
      corpusMetaByUrn = Map.empty,
      sortKey = ''total'',
      sortDir = desc,
      totalThreshold = 0,
      aggregateByYear = False,
      yearBinSize = 1,
      aggregatePercent = False,
      hiddenSeries = {}\<rparr>"

text \<open>The scenario with a non-numeric year for \<^verbatim>\<open>doc1\<close>, sorted by year.\<close>

definition abcYearState :: AppState where
  "abcYearState =
     exampleState\<lparr>corpusMetaById :=
                    map_of [(''doc1'', metaOfYear (Some ''abc'')),
                            (''doc2'', metaOfYear (Some ''1988''))],
                  sortKey := ''year''\<rparr>"

section \<open>Properties of the sort\<close>

lemma mset_insort_js: "mset (insort_js cmp x ys) = add_mset x (mset ys)"
  by (induction ys) auto

lemma mset_sort_js: "mset (sort_js cmp xs) = mset xs"
  unfolding sort_js_def by (induction xs) (auto simp: mset_insort_js)

lemma set_sort_js: "set (sort_js cmp xs) = set xs"
  by (rule mset_eq_setD) (rule mset_sort_js)

lemma length_sort_js: "length (sort_js cmp xs) = length xs"
  by (rule mset_eq_length) (rule mset_sort_js)

lemma distinct_sort_js: "distinct (sort_js cmp xs) = distinct xs"
  by (rule mset_eq_imp_distinct_iff) (rule mset_sort_js)

lemma sum_list_sort_js:
  fixes f :: "'a \<Rightarrow> int"
  shows "sum_list (map f (sort_js cmp xs)) = sum_list (map f xs)"
proof -
  have "mset (map f (sort_js cmp xs)) = mset (map f xs)"
    by (simp add: mset_sort_js)
  then have "sum_mset (mset (map f (sort_js cmp xs))) = sum_mset (mset (map f xs))"
    by (rule arg_cong)
  then show ?thesis by (simp only: sum_mset_sum_list)
qed

lemma sortPos_neg [simp]: "sortPos (js_neg v) = sortNeg v"
  by (cases v) auto

lemma sortNeg_neg [simp]: "sortNeg (js_neg v) = sortPos v"
  by (cases v) auto

lemma sortPos_not_Neg: "sortPos v \<Longrightarrow> \<not> sortNeg v"
  by (cases v) auto
lemma sorted_insort_js:
  assumes "consistent_on S cmp" "untied_on S cmp" "x \<in> S" "set ys \<subseteq> S" "x \<notin> set ys"
    "sorted_wrt (\<lambda>a b. sortNeg (cmp a b)) ys"
  shows "sorted_wrt (\<lambda>a b. sortNeg (cmp a b)) (insort_js cmp x ys)"
  using assms(4-6)
proof (induction ys)
  case Nil
  then show ?case by simp
next
  case (Cons y ys)
  have yS: "y \<in> S" and xy: "x \<noteq> y" using Cons.prems by auto
  show ?case
  proof (cases "sortPos (cmp x y)")
    case True
    then have "sortNeg (cmp y x)" using assms(1,3) yS unfolding consistent_on_def by blast
    moreover have "sorted_wrt (\<lambda>a b. sortNeg (cmp a b)) (insort_js cmp x ys)"
      using Cons by auto
    moreover have "set (insort_js cmp x ys) = insert x (set ys)"
      by (metis mset_insort_js set_mset_add_mset_insert set_mset_mset)
    ultimately show ?thesis using True Cons.prems by auto
  next
    case False
    then have n: "sortNeg (cmp x y)" using assms(2,3) yS xy unfolding untied_on_def by blast
    have "sortNeg (cmp x z)" if "z \<in> set ys" for z
    proof -
      have "sortNeg (cmp y z)" using Cons.prems that by auto
      moreover have "z \<in> S" using Cons.prems that by auto
      ultimately show ?thesis using n assms(1,3) yS unfolding consistent_on_def by blast
    qed
    then show ?thesis using False n Cons.prems by auto
  qed
qed

lemma sorted_sort_js:
  assumes "consistent_on S cmp" "untied_on S cmp" "set xs \<subseteq> S" "distinct xs"
  shows "sorted_wrt (\<lambda>a b. sortNeg (cmp a b)) (sort_js cmp xs)"
  using assms(3,4)
proof (induction xs)
  case Nil
  then show ?case by (simp add: sort_js_def)
next
  case (Cons x xs)
  have "sorted_wrt (\<lambda>a b. sortNeg (cmp a b)) (insort_js cmp x (sort_js cmp xs))"
    using Cons by (intro sorted_insort_js[OF assms(1,2)]) (auto simp: set_sort_js)
  then show ?case by (simp add: sort_js_def)
qed

lemma sorted_wrt_unique:
  assumes "\<And>a b. a \<in> set xs \<Longrightarrow> b \<in> set xs \<Longrightarrow> P a b \<Longrightarrow> \<not> P b a"
    "sorted_wrt P xs" "sorted_wrt P ys" "distinct xs" "distinct ys" "set xs = set ys"
  shows "xs = ys"
  using assms
proof (induction xs arbitrary: ys)
  case Nil
  then show ?case by simp
next
  case (Cons x xs)
  from Cons.prems(6) obtain y ys' where ys: "ys = y # ys'" by (cases ys) auto
  have "x = y"
  proof (rule ccontr)
    assume ne: "x \<noteq> y"
    then have "y \<in> set xs" "x \<in> set ys'" using Cons.prems(6) ys by auto
    then have "P x y" "P y x" using Cons.prems(2,3) ys by auto
    then show False using Cons.prems(1)[of x y] Cons.prems(6) ys by auto
  qed
  moreover have "xs = ys'"
  proof (rule Cons.IH)
    show "set xs = set ys'" using Cons.prems(4,5,6) ys \<open>x = y\<close> by auto
    show "sorted_wrt P xs" using Cons.prems(2) by simp
    show "sorted_wrt P ys'" using Cons.prems(3) ys by simp
    show "distinct xs" using Cons.prems(4) by simp
    show "distinct ys'" using Cons.prems(5) ys by simp
    show "\<And>a b. a \<in> set xs \<Longrightarrow> b \<in> set xs \<Longrightarrow> P a b \<Longrightarrow> \<not> P b a"
      using Cons.prems(1) by simp
  qed
  ultimately show ?case using ys by simp
qed

lemma consistent_onD1:
  "consistent_on S cmp \<Longrightarrow> a \<in> S \<Longrightarrow> b \<in> S \<Longrightarrow> sortPos (cmp a b) = sortNeg (cmp b a)"
  unfolding consistent_on_def by blast

lemma consistent_onD2:
  "consistent_on S cmp \<Longrightarrow> a \<in> S \<Longrightarrow> b \<in> S \<Longrightarrow> c \<in> S \<Longrightarrow>
   sortNeg (cmp a b) \<Longrightarrow> sortNeg (cmp b c) \<Longrightarrow> sortNeg (cmp a c)"
  unfolding consistent_on_def by blast

lemma consistent_on_neg:
  assumes c: "consistent_on S cmp"
  shows "consistent_on S (\<lambda>a b. js_neg (cmp a b))"
  unfolding consistent_on_def
proof (intro conjI ballI impI)
  fix a b assume "a \<in> S" "b \<in> S"
  then show "sortPos (js_neg (cmp a b)) = sortNeg (js_neg (cmp b a))"
    using consistent_onD1[OF c, of b a] by simp
next
  fix a b d assume S: "a \<in> S" "b \<in> S" "d \<in> S"
    and h: "sortNeg (js_neg (cmp a b)) \<and> sortNeg (js_neg (cmp b d))"
  from h have "sortPos (cmp a b)" "sortPos (cmp b d)" by simp_all
  then have "sortNeg (cmp b a)" "sortNeg (cmp d b)"
    using consistent_onD1[OF c, of a b] consistent_onD1[OF c, of b d] S by simp_all
  then have "sortNeg (cmp d a)"
    using consistent_onD2[OF c, of d b a] S by simp
  then show "sortNeg (js_neg (cmp a d))"
    using consistent_onD1[OF c, of a d] S by simp
qed

lemma untied_on_neg:
  assumes "untied_on S cmp"
  shows "untied_on S (\<lambda>a b. js_neg (cmp a b))"
  unfolding untied_on_def
proof (intro ballI impI)
  fix a b assume "a \<in> S" "b \<in> S" "a \<noteq> b"
  then have "sortPos (cmp a b) \<or> sortNeg (cmp a b)"
    using assms unfolding untied_on_def by blast
  then show "sortPos (js_neg (cmp a b)) \<or> sortNeg (js_neg (cmp a b))"
    by auto
qed

lemma rev_sort_js:
  assumes c: "consistent_on (set xs) cmp" and u: "untied_on (set xs) cmp" and d: "distinct xs"
  shows "rev (sort_js cmp xs) = sort_js (\<lambda>a b. js_neg (cmp a b)) xs"
proof -
  let ?cmp' = "\<lambda>a b. js_neg (cmp a b)"
  have c': "consistent_on (set xs) ?cmp'"
    by (rule consistent_on_neg[OF c])
  have u': "untied_on (set xs) ?cmp'"
    by (rule untied_on_neg[OF u])
  have s1: "sorted_wrt (\<lambda>a b. sortNeg (cmp a b)) (sort_js cmp xs)"
    by (rule sorted_sort_js[OF c u _ d]) simp
  have s2: "sorted_wrt (\<lambda>a b. sortNeg (?cmp' a b)) (sort_js ?cmp' xs)"
    by (rule sorted_sort_js[OF c' u' _ d]) simp
  have "sorted_wrt (\<lambda>a b. sortNeg (cmp b a)) (rev (sort_js cmp xs))"
    using s1 by (simp add: sorted_wrt_rev)
  then have s3: "sorted_wrt (\<lambda>a b. sortNeg (?cmp' a b)) (rev (sort_js cmp xs))"
  proof (rule sorted_wrt_mono_rel[rotated])
    fix a b assume "a \<in> set (rev (sort_js cmp xs))" "b \<in> set (rev (sort_js cmp xs))"
      "sortNeg (cmp b a)"
    then show "sortNeg (?cmp' a b)"
      using consistent_onD1[OF c, of a b] by (simp add: set_sort_js)
  qed
  show ?thesis
  proof (rule sorted_wrt_unique[OF _ s3 s2])
    fix a b assume "a \<in> set (rev (sort_js cmp xs))" "b \<in> set (rev (sort_js cmp xs))"
      "sortNeg (?cmp' a b)"
    then show "\<not> sortNeg (?cmp' b a)"
      using consistent_onD1[OF c, of a b] sortPos_not_Neg[of "cmp b a"]
      by (auto simp: set_sort_js)
  next
    show "distinct (rev (sort_js cmp xs))" by (simp add: distinct_sort_js d)
    show "distinct (sort_js ?cmp' xs)" by (simp add: distinct_sort_js d)
    show "set (rev (sort_js cmp xs)) = set (sort_js ?cmp' xs)" by (simp add: set_sort_js)
  qed
qed

section \<open>Properties of the builder\<close>

lemma ids_addCount: "map row_id (topicRows (addCount label st tv)) = map row_id (topicRows st)"
  by (simp add: addCount_def Let_def o_def)

lemma ids_foldl_addCount:
  "map row_id (topicRows (foldl (addCount label) st tvs)) = map row_id (topicRows st)"
  by (induction tvs arbitrary: st) (simp_all add: ids_addCount)

lemma ids_pivotDoc: "map row_id (topicRows (pivotDoc m bs st row)) = map row_id (topicRows st)"
  by (simp add: pivotDoc_def ids_foldl_addCount split: prod.splits option.splits)

lemma ids_foldl_pivotDoc:
  "map row_id (topicRows (foldl (pivotDoc m bs) st rows)) = map row_id (topicRows st)"
  by (induction rows arbitrary: st) (simp_all add: ids_pivotDoc)

lemma ids_pivot: "map row_id (topicRows (pivot m bs ts rows)) = ts"
  by (simp add: pivot_def ids_foldl_pivotDoc emptyRows_def o_def)

lemma length_pivot: "length (topicRows (pivot m bs ts rows)) = length ts"
  using ids_pivot[of m bs ts rows] by (metis length_map)

lemma length_filtered: "length (filtered t xs) \<le> length xs"
  by (simp add: filtered_def)

lemma filtered_0: "filtered 0 xs = xs"
  by (simp add: filtered_def)

lemma distinct_topicsOf: "distinct (topicsOf rows)"
  by (simp add: topicsOf_def)

lemma set_topicsOf: "set (topicsOf rows) = (\<Union>(d, ts) \<in> set rows. fst ` set ts)"
  by (auto simp: topicsOf_def)

lemma binStart_of_int: "binStart bs (of_int n) = n div bs * bs"
  by (simp add: binStart_def floor_divide_of_int_eq)

lemma binStart_numeral: "binStart (numeral b) (numeral n) = numeral n div numeral b * numeral b"
  using binStart_of_int[of "numeral b" "numeral n"] by simp

lemma binStart_one: "binStart 1 (numeral n) = numeral n"
  using binStart_of_int[of 1 "numeral n"] by simp

lemmas Number_eval = Number_str_def trim_def isWhite_def parseDecimal_def isDigitIn_def
  digitOf_def parseExponent_def pow10_def digitsVal_def parseRadix_def Number_opt_def

lemmas label_eval = binLabel_def showInt_def showNat.simps binStart_numeral binStart_one

lemma lookup0_Nil [simp]: "lookup0 [] k = 0"
  by (simp add: lookup0_def)

lemma lookup0_Cons [simp]: "lookup0 ((k, v) # ts) t = (if t = k then v else lookup0 ts t)"
  by (simp add: lookup0_def)

lemma hasYear_iff: "hasYear m d \<longleftrightarrow> (\<exists>y. yearValueOf m d = Fin y)"
  by (cases "yearValueOf m d") (simp_all add: hasYear_def)

lemma getYearLabel_None: "\<not> hasYear m d \<Longrightarrow> getYearLabel m bs d yb = (None, yb)"
  by (cases "yearValueOf m d") (simp_all add: hasYear_iff getYearLabel_def)

lemma getYearLabel_Some:
  "yearValueOf m d = Fin y \<Longrightarrow>
   getYearLabel m bs d yb =
     (Some (binLabel bs (binStart bs y)),
      AList.update (binLabel bs (binStart bs y)) (binStart bs y) yb)"
  by (simp add: getYearLabel_def Let_def)

lemma sumValues_sum_list: "sumValues ts = sum_list (map snd ts)"
proof -
  have "foldl (\<lambda>sum (key, value). sum + value) a ts = a + sum_list (map snd ts)" for a :: int
    by (induction ts arbitrary: a) (auto simp: case_prod_beta)
  then show ?thesis by (simp add: sumValues_def)
qed

lemma total_map_update:
  assumes "distinct (map row_id rs)" "t \<in> row_id ` set rs"
  shows "sum_list (map row_total
            (map (\<lambda>r. if row_id r = t then r\<lparr>row_values := g r, row_total := row_total r + v\<rparr> else r) rs))
         = sum_list (map row_total rs) + v"
  using assms
proof (induction rs)
  case Nil
  then show ?case by simp
next
  case (Cons r rs)
  show ?case
  proof (cases "row_id r = t")
    case True
    then have "t \<notin> row_id ` set rs" using Cons.prems(1) by auto
    then have "map (\<lambda>r. if row_id r = t then r\<lparr>row_values := g r, row_total := row_total r + v\<rparr> else r) rs = rs"
      by (induction rs) auto
    then show ?thesis using True by simp
  next
    case False
    then have "t \<in> row_id ` set rs" using Cons.prems(2) by auto
    then show ?thesis using Cons False by simp
  qed
qed

lemma total_addCount:
  assumes "distinct (map row_id (topicRows st))" "fst tv \<in> row_id ` set (topicRows st)"
  shows "sum_list (map row_total (topicRows (addCount label st tv)))
         = sum_list (map row_total (topicRows st)) + snd tv"
proof -
  have ex: "\<exists>r\<in>set (topicRows st). row_id r = fst tv" using assms(2) by auto
  show ?thesis
    using total_map_update[OF assms, where g = "\<lambda>r. AList.update label (lookup0 (row_values r) label + snd tv) (row_values r)" and v = "snd tv"] ex
    by (auto simp: addCount_def Let_def)
qed

lemma total_foldl_addCount:
  assumes "distinct (map row_id (topicRows st))" "fst ` set tvs \<subseteq> row_id ` set (topicRows st)"
  shows "sum_list (map row_total (topicRows (foldl (addCount label) st tvs)))
         = sum_list (map row_total (topicRows st)) + sum_list (map snd tvs)"
  using assms
proof (induction tvs arbitrary: st)
  case Nil
  then show ?case by simp
next
  case (Cons tv tvs)
  have ids: "map row_id (topicRows (addCount label st tv)) = map row_id (topicRows st)"
    by (rule ids_addCount)
  have d: "distinct (map row_id (topicRows (addCount label st tv)))"
    using Cons.prems(1) by (simp add: ids)
  have s: "fst ` set tvs \<subseteq> row_id ` set (topicRows (addCount label st tv))"
    using Cons.prems(2) ids by (metis (no_types, lifting) insert_subset list.set(2) image_insert set_map)
  have "sum_list (map row_total (topicRows (addCount label st tv)))
         = sum_list (map row_total (topicRows st)) + snd tv"
    using Cons.prems by (intro total_addCount) auto
  then show ?case using Cons.IH[OF d s] by simp
qed

lemma total_pivotDoc:
  assumes "distinct (map row_id (topicRows st))"
    "fst ` set (topics row) \<subseteq> row_id ` set (topicRows st)"
  shows "sum_list (map row_total (topicRows (pivotDoc m bs st row)))
         = sum_list (map row_total (topicRows st))
           + (if hasYear m (docId row) then sumValues (topics row) else 0)"
proof (cases "hasYear m (docId row)")
  case False
  then show ?thesis by (simp add: pivotDoc_def getYearLabel_None)
next
  case True
  then obtain y where y: "yearValueOf m (docId row) = Fin y" by (auto simp: hasYear_iff)
  show ?thesis
    using True total_foldl_addCount[of "st\<lparr>yearBins := AList.update (binLabel bs (binStart bs y)) (binStart bs y) (yearBins st)\<rparr>" "topics row" "binLabel bs (binStart bs y)"] assms
    by (simp add: pivotDoc_def getYearLabel_Some[OF y] sumValues_sum_list)
qed

lemma total_foldl_pivotDoc:
  assumes "distinct (map row_id (topicRows st))"
    "\<forall>row \<in> set rows. fst ` set (topics row) \<subseteq> row_id ` set (topicRows st)"
  shows "sum_list (map row_total (topicRows (foldl (pivotDoc m bs) st rows)))
         = sum_list (map row_total (topicRows st))
           + (\<Sum>row \<leftarrow> rows. if hasYear m (docId row) then sumValues (topics row) else 0)"
  using assms
proof (induction rows arbitrary: st)
  case Nil
  then show ?case by simp
next
  case (Cons row rows)
  have ids: "map row_id (topicRows (pivotDoc m bs st row)) = map row_id (topicRows st)"
    by (rule ids_pivotDoc)
  then have ids': "row_id ` set (topicRows (pivotDoc m bs st row)) = row_id ` set (topicRows st)"
    by (metis set_map)
  have d: "distinct (map row_id (topicRows (pivotDoc m bs st row)))"
    using Cons.prems(1) by (simp add: ids)
  have s: "\<forall>r \<in> set rows. fst ` set (topics r) \<subseteq> row_id ` set (topicRows (pivotDoc m bs st row))"
    using Cons.prems(2) ids' by simp
  have "sum_list (map row_total (topicRows (pivotDoc m bs st row)))
         = sum_list (map row_total (topicRows st))
           + (if hasYear m (docId row) then sumValues (topics row) else 0)"
    using Cons.prems by (intro total_pivotDoc) auto
  then show ?case using Cons.IH[OF d s] by simp
qed

lemma topics_in_topicsOf:
  "(d, ts) \<in> set rows \<Longrightarrow> fst ` set ts \<subseteq> set (topicsOf rows)"
  by (auto simp: set_topicsOf)

lemma total_pivot:
  "sum_list (map row_total (topicRows (pivot m bs (topicsOf rows) (rowsWithTotals rows))))
   = (\<Sum>(d, ts) \<leftarrow> rows. if hasYear m d then sumValues ts else 0)"
proof -
  let ?st = "\<lparr>topicRows = emptyRows (topicsOf rows), yearTotals = [], yearBins = []\<rparr>"
  have ids: "map row_id (topicRows ?st) = topicsOf rows"
    by (simp add: emptyRows_def o_def)
  have d: "distinct (map row_id (topicRows ?st))"
    unfolding ids by (rule distinct_topicsOf)
  have s: "\<forall>row \<in> set (rowsWithTotals rows). fst ` set (topics row) \<subseteq> row_id ` set (topicRows ?st)"
  proof
    fix row assume "row \<in> set (rowsWithTotals rows)"
    then obtain d ts where "(d, ts) \<in> set rows" "topics row = ts"
      by (auto simp: rowsWithTotals_def)
    then have "fst ` set (topics row) \<subseteq> set (topicsOf rows)"
      using topics_in_topicsOf by blast
    then show "fst ` set (topics row) \<subseteq> row_id ` set (topicRows ?st)"
      using ids by (metis set_map)
  qed
  have z: "sum_list (map row_total (topicRows ?st)) = 0"
    by (simp add: emptyRows_def o_def)
  have "(\<Sum>row \<leftarrow> rowsWithTotals rows. if hasYear m (docId row) then sumValues (topics row) else 0)
        = (\<Sum>(d, ts) \<leftarrow> rows. if hasYear m d then sumValues ts else 0)"
    by (induction rows) (auto simp: rowsWithTotals_def)
  then show ?thesis
    using total_foldl_pivotDoc[OF d s, of m bs] z by (simp add: pivot_def)
qed

lemma total_docRows:
  "sum_list (map row_total (docRowsOf (rowsWithTotals rows))) = (\<Sum>(d, ts) \<leftarrow> rows. sumValues ts)"
  by (induction rows) (auto simp: docRowsOf_def rowsWithTotals_def)


lemma lookup0_notin: "k \<notin> fst ` set ts \<Longrightarrow> lookup0 ts k = 0"
  by (induction ts) auto

lemma sum_lookup0:
  assumes "distinct (map fst ts)" "distinct U" "fst ` set ts \<subseteq> set U"
  shows "(\<Sum>t \<leftarrow> U. lookup0 ts t) = sum_list (map snd ts)"
  using assms(1,3)
proof (induction ts)
  case Nil
  then show ?case by simp
next
  case (Cons kv ts)
  obtain k v where kv: "kv = (k, v)" by (cases kv)
  have k: "k \<in> set U" "k \<notin> fst ` set ts" using Cons.prems kv by auto
  have IH: "(\<Sum>t \<leftarrow> U. lookup0 ts t) = sum_list (map snd ts)"
    using Cons by auto
  have "(\<Sum>t \<leftarrow> U. lookup0 (kv # ts) t) = (\<Sum>t \<in> set U. if t = k then v else lookup0 ts t)"
    using assms(2) by (simp add: kv sum_list_distinct_conv_sum_set)
  also have "\<dots> = v + (\<Sum>t \<in> set U - {k}. if t = k then v else lookup0 ts t)"
    using k(1) by (simp add: sum.remove)
  also have "(\<Sum>t \<in> set U - {k}. if t = k then v else lookup0 ts t)
             = (\<Sum>t \<in> set U - {k}. lookup0 ts t)"
    by (intro sum.cong) auto
  also have "\<dots> = lookup0 ts k + (\<Sum>t \<in> set U - {k}. lookup0 ts t)"
    using lookup0_notin[OF k(2)] by simp
  also have "\<dots> = (\<Sum>t \<in> set U. lookup0 ts t)"
    using k(1) by (simp add: sum.remove)
  also have "\<dots> = (\<Sum>t \<leftarrow> U. lookup0 ts t)"
    using assms(2) by (simp add: sum_list_distinct_conv_sum_set)
  finally show ?case using IH by (simp add: kv)
qed

lemma docRows_ids: "map row_id (docRowsOf (rowsWithTotals rows)) = map fst rows"
  by (induction rows) (auto simp: docRowsOf_def rowsWithTotals_def)

lemma docRow_cases:
  assumes "r \<in> set (docRowsOf (rowsWithTotals rows))"
  shows "\<exists>d ts. (d, ts) \<in> set rows \<and> r = \<lparr>row_id = d, row_values = ts, row_total = sumValues ts\<rparr>"
  using assms by (auto simp: docRowsOf_def rowsWithTotals_def)

lemma set_filtered: "set (filtered t xs) \<subseteq> set xs"
  by (simp add: filtered_def)

lemma distinct_map_sort_js: "distinct (map f (sort_js cmp xs)) = distinct (map f xs)"
  by (rule mset_eq_imp_distinct_iff) (simp add: mset_sort_js)

lemma distinct_map_filtered: "distinct (map f xs) \<Longrightarrow> distinct (map f (filtered t xs))"
  by (simp add: filtered_def distinct_map_filter)


lemma valueOfCell_docs:
  "col_year c = None \<Longrightarrow> valueOfCell r c = propOr0 (row_values r) (col_key c)"
  by (simp add: valueOfCell_def)

lemma cellValue_valueOfCell:
  assumes "valueOfCell row column = Num v"
    and "\<not> (col_kind column = KPercent \<and> tbl_mode tbl = ModeTopics)"
  shows "cellValue tbl row column = Fin (of_int v)"
  using assms
  by (auto simp: cellValue_def valueOfCell_def propOr0_def lookup0_def Let_def
      split: option.splits if_splits)

lemma pivotDoc_noYear: "\<not> hasYear m (docId row) \<Longrightarrow> pivotDoc m bs st row = st"
  by (simp add: pivotDoc_def getYearLabel_None)

lemma foldl_pivotDoc_filter:
  "foldl (pivotDoc m bs) st rows
   = foldl (pivotDoc m bs) st (filter (\<lambda>row. hasYear m (docId row)) rows)"
  by (induction rows arbitrary: st) (simp_all add: pivotDoc_noYear)

lemma yearBins_addCount: "yearBins (addCount label st tv) = yearBins st"
  by (simp add: addCount_def Let_def)

lemma yearBins_foldl_addCount: "yearBins (foldl (addCount label) st tvs) = yearBins st"
  by (induction tvs arbitrary: st) (simp_all add: yearBins_addCount)

lemma yearBins_pivotDoc:
  "yearBins (pivotDoc m bs st row)
   = (case yearValueOf m (docId row) of
        Fin y \<Rightarrow> AList.update (binLabel bs (binStart bs y)) (binStart bs y) (yearBins st)
      | _ \<Rightarrow> yearBins st)"
  by (cases "yearValueOf m (docId row)")
    (simp_all add: pivotDoc_def getYearLabel_def Let_def yearBins_foldl_addCount)

lemma set_update_subset: "set (AList.update k v al) \<subseteq> insert (k, v) (set al)"
  by (induction al) auto

lemma binsOf_Nil: "binsOf m bs [] = []"
  by (simp add: binsOf_def)

lemma binsOf_Cons: "binsOf m bs (row # rows) = binsOf m bs [row] @ binsOf m bs rows"
  by (simp add: binsOf_def)

lemma binsOf_single:
  "binsOf m bs [row] =
     (case yearValueOf m (docId row) of
        Fin y \<Rightarrow> [(binLabel bs (binStart bs y), binStart bs y)]
      | _ \<Rightarrow> [])"
  by (simp add: binsOf_def)

lemma yearBins_foldl_pivotDoc:
  "set (yearBins (foldl (pivotDoc m bs) st rows)) \<subseteq> set (yearBins st) \<union> set (binsOf m bs rows)"
proof (induction rows arbitrary: st)
  case Nil
  then show ?case by simp
next
  case (Cons row rows)
  have 1: "set (yearBins (pivotDoc m bs st row)) \<subseteq> set (yearBins st) \<union> set (binsOf m bs [row])"
    using set_update_subset
    by (cases "yearValueOf m (docId row)") (fastforce simp: yearBins_pivotDoc binsOf_single)+
  have 2: "set (binsOf m bs [row]) \<union> set (binsOf m bs rows) = set (binsOf m bs (row # rows))"
    by (simp add: binsOf_Cons[of m bs row rows])
  show ?case using Cons.IH[of "pivotDoc m bs st row"] 1 2 by auto
qed

lemma showNat_hd: "showNat n \<noteq> [] \<and> hd (showNat n) \<in> set ''0123456789''"
proof (induction n rule: showNat.induct)
  case (1 n)
  show ?case
  proof (cases "n < 10")
    case True
    then have "n \<in> {0,1,2,3,4,5,6,7,8,9}" by auto
    then show ?thesis by (subst (1 2) showNat.simps) auto
  next
    case False
    then show ?thesis using 1 by (subst (1 2) showNat.simps) auto
  qed
qed

lemma binLabel_not_Ukjent: "binLabel bs start \<noteq> ''Ukjent''"
proof -
  have "hd (showInt i) \<noteq> CHR ''U''" for i
    using showNat_hd[of "nat i"] by (auto simp: showInt_def)
  moreover have "showInt i \<noteq> []" for i
    using showNat_hd[of "nat i"] by (auto simp: showInt_def)
  ultimately have "hd (binLabel bs start) \<noteq> CHR ''U''"
    by (simp add: binLabel_def)
  then show ?thesis by auto
qed


lemma set_yearLabelsOf: "set (yearLabelsOf yb) = fst ` set yb"
  by (simp add: yearLabelsOf_def set_sort_js)

lemma binsOf_label:
  "(l, s) \<in> set (binsOf m bs rows) \<Longrightarrow>
   \<exists>row \<in> set rows. \<exists>y. yearValueOf m (docId row) = Fin y \<and> l = binLabel bs (binStart bs y)"
proof (induction rows)
  case Nil
  then show ?case by (simp add: binsOf_Nil)
next
  case (Cons row rows)
  show ?case
  proof (cases "(l, s) \<in> set (binsOf m bs rows)")
    case True
    then show ?thesis using Cons.IH by auto
  next
    case False
    then have "(l, s) \<in> set (binsOf m bs [row])"
      using Cons.prems by (simp add: binsOf_Cons[of m bs row rows])
    then obtain y where "yearValueOf m (docId row) = Fin y" "l = binLabel bs (binStart bs y)"
      by (cases "yearValueOf m (docId row)") (simp_all add: binsOf_single)
    then show ?thesis by auto
  qed
qed

lemma percentOf_eq:
  "percentOf v d = (if d > 0 then Fin (100 * of_int v / of_int d) else Fin 0)"
  by (simp add: percentOf_def js_div_def)

lemma percentSortValue_eq:
  "percentSortValue yt column row =
     (if lookup0 yt (yearKey column) > 0
      then Fin (of_int (lookup0 (row_values row) (yearKey column)) / of_int (lookup0 yt (yearKey column)))
      else Fin 0)"
  by (simp add: percentSortValue_def js_div_def Let_def)

lemma isFinite_direction_mul: "isFinite v \<Longrightarrow> isFinite (js_mul (direction dir) v)"
  by (cases v) (simp_all add: direction_def)

lemma isFinite_topicCompare: "isFinite (topicCompare lc key dir columnDefs yt a b)"
proof -
  have "isFinite (js_sub (percentSortValue yt c a) (percentSortValue yt c b))" for c
    by (simp add: percentSortValue_eq)
  then show ?thesis
    by (auto simp: topicCompare_def isFinite_direction_mul split: option.splits ColumnKind.splits)
qed

lemma isFinite_cellValue: "isFinite (cellValue tbl row column)"
  by (simp add: cellValue_def percentOf_eq Let_def)

lemma isFinite_chartValue: "isFinite (chartValue tbl pct row column)"
  by (simp add: chartValue_def percentOf_eq Let_def)

lemma chartSeries_finite:
  assumes "chartSeries (Some tbl) st = Some ch" "s \<in> set (chart_series ch)"
  shows "list_all isFinite (series_values s)"
proof -
  from assms(1) obtain cols rs where
    ch: "chart_series ch = map (\<lambda>row. \<lparr>series_id = row_id row,
            series_values = map (chartValue tbl (aggregatePercent st) row) cols\<rparr>) rs"
    by (auto simp: chartSeries_def Let_def split: if_splits)
  then have "\<exists>row. series_values s = map (chartValue tbl (aggregatePercent st) row) cols"
    using assms(2) by auto
  then show ?thesis by (auto simp: list_all_iff isFinite_chartValue)
qed

lemma floor_rat_numeral [simp]:
  "\<lfloor>(numeral a :: rat) / numeral b\<rfloor> = numeral a div numeral b"
  using floor_divide_of_int_eq[of "numeral a" "numeral b", where ?'a = rat] by simp

lemma binSize_small: "ybs < 2 \<Longrightarrow> binSize ybs = 1"
proof (cases "ybs = 0")
  case True
  then show ?thesis by (simp add: binSize_def)
next
  case False
  assume "ybs < 2"
  then have "\<lfloor>ybs\<rfloor> < 2" by (simp add: floor_less_iff)
  then show ?thesis using False by (simp add: binSize_def)
qed

lemma binSize_large: "2 \<le> ybs \<Longrightarrow> binSize ybs = \<lfloor>ybs\<rfloor>"
proof -
  assume h: "2 \<le> ybs"
  then have "2 \<le> \<lfloor>ybs\<rfloor>" by (simp add: le_floor_iff)
  then show ?thesis using h by (simp add: binSize_def)
qed

lemma binSize_of_int: "0 < n \<Longrightarrow> binSize (of_int n) = n"
  by (simp add: binSize_def)

lemma yearSortValue_eq:
  "yearMissingOrFinite st d \<Longrightarrow> yearSortValue st d = Fin (yearOrZero st d)"
  by (cases "metaChain st meta_year d")
    (auto simp: yearMissingOrFinite_def yearSortValue_def yearOrZero_def split: jsnum.splits)

lemma sortNeg_direction_asc [simp]: "sortNeg (js_mul (direction asc) v) = sortNeg v"
  by (cases v) (simp_all add: direction_def)

lemma js_mul_asc [simp]: "js_mul (direction asc) v = v"
  by (cases v) (simp_all add: direction_def)

lemma js_mul_desc [simp]: "js_mul (direction desc) v = js_neg v"
  by (cases v) (simp_all add: direction_def)

lemma metaChain_sortDir [simp]: "metaChain (st\<lparr>sortDir := d\<rparr>) = metaChain st"
  by (simp add: metaChain_def fun_eq_iff split: option.splits)

lemma metaText_sortDir [simp]: "metaText (st\<lparr>sortDir := d\<rparr>) = metaText st"
  by (simp add: metaText_def fun_eq_iff)

lemma yearSortValue_sortDir [simp]: "yearSortValue (st\<lparr>sortDir := d\<rparr>) = yearSortValue st"
  by (simp add: yearSortValue_def fun_eq_iff)

lemma docCompare_desc:
  "docCompare lc (st\<lparr>sortDir := desc\<rparr>) ts a b = js_neg (docCompare lc (st\<lparr>sortDir := asc\<rparr>) ts a b)"
  by (simp add: docCompare_def)

lemma topicCompare_desc:
  "topicCompare lc key desc cols yt a b = js_neg (topicCompare lc key asc cols yt a b)"
  by (simp add: topicCompare_def split: option.splits ColumnKind.splits)

lemma sortPos_sub: "sortPos (js_sub x y) = sortNeg (js_sub y x)"
  by (cases x; cases y) auto

lemma sortNeg_sub_trans:
  "sortNeg (js_sub x y) \<Longrightarrow> sortNeg (js_sub y z) \<Longrightarrow> sortNeg (js_sub x z)"
  by (cases x; cases y; cases z) auto

lemma consistent_sub: "consistent_on S (\<lambda>a b. js_sub (f a) (f b))"
  unfolding consistent_on_def
  using sortPos_sub sortNeg_sub_trans by blast

lemma consistent_int: "consistent_on S (\<lambda>a b. Fin (of_int (g a - g b)))"
  using consistent_sub[of S "\<lambda>a. Fin (of_int (g a))"] by simp

lemma consistent_collation:
  assumes "collation lc"
  shows "consistent_on S (\<lambda>a b. Fin (of_int (lc (h a) (h b))))"
proof -
  have A: "\<And>s t. 0 < lc s t \<longleftrightarrow> lc t s < 0"
    and T: "\<And>s t u. lc s t < 0 \<Longrightarrow> lc t u < 0 \<Longrightarrow> lc s u < 0"
    using assms unfolding collation_def by blast+
  show ?thesis
    unfolding consistent_on_def
  proof (intro conjI ballI impI)
    fix a b show "sortPos (Fin (of_int (lc (h a) (h b)))) = sortNeg (Fin (of_int (lc (h b) (h a))))"
      using A[of "h a" "h b"] by simp
  next
    fix a b c
    assume "sortNeg (Fin (of_int (lc (h a) (h b)))) \<and> sortNeg (Fin (of_int (lc (h b) (h c))))"
    then show "sortNeg (Fin (of_int (lc (h a) (h c))))"
      using T[of "h a" "h b" "h c"] by simp
  qed
qed

lemma consistent_zero: "consistent_on S (\<lambda>a b. Fin 0)"
  by (simp add: consistent_on_def)

lemma consistent_if:
  "consistent_on S f \<Longrightarrow> consistent_on S g \<Longrightarrow>
   consistent_on S (\<lambda>a b. if c then f a b else g a b)"
  by (cases c) simp_all

lemma consistent_case_option:
  "consistent_on S f \<Longrightarrow> (\<And>c. consistent_on S (g c)) \<Longrightarrow>
   consistent_on S (\<lambda>a b. case x of None \<Rightarrow> f a b | Some c \<Rightarrow> g c a b)"
  by (cases x) simp_all

lemma consistent_case_kind:
  "consistent_on S f \<Longrightarrow> consistent_on S g \<Longrightarrow>
   consistent_on S (\<lambda>a b. case k of KCount \<Rightarrow> f a b | KPercent \<Rightarrow> g a b)"
  by (cases k) simp_all

lemma consistent_docCompare:
  assumes "collation lc"
  shows "consistent_on S (docCompare lc (st\<lparr>sortDir := asc\<rparr>) ts)"
proof -
  have "docCompare lc (st\<lparr>sortDir := asc\<rparr>) ts
        = (\<lambda>a b. if sortKey st = ''dhlabid'' \<or> sortKey st = ''row''
                 then Fin (of_int (lc (row_id a) (row_id b)))
                 else if sortKey st = ''total''
                 then Fin (of_int (row_total a - row_total b))
                 else if sortKey st = ''title'' \<or> sortKey st = ''authors''
                 then Fin (of_int (lc (metaText st (row_id a)) (metaText st (row_id b))))
                 else if sortKey st = ''year''
                 then js_sub (yearSortValue st (row_id a)) (yearSortValue st (row_id b))
                 else if sortKey st \<in> set ts
                 then js_sub (toNumber (propOr0 (row_values a) (sortKey st)))
                             (toNumber (propOr0 (row_values b) (sortKey st)))
                 else Fin 0)"
    by (simp add: docCompare_def fun_eq_iff split del: if_split cong: if_cong)
  then show ?thesis
    by (simp only:)
      (intro consistent_if consistent_collation[OF assms] consistent_int consistent_sub
        consistent_zero)
qed

lemma consistent_topicCompare:
  assumes "collation lc"
  shows "consistent_on S (topicCompare lc key asc cols yt)"
proof -
  have "topicCompare lc key asc cols yt
        = (\<lambda>a b. if key = ''row'' then Fin (of_int (lc (row_id a) (row_id b)))
                 else if key = ''total'' then Fin (of_int (row_total a - row_total b))
                 else (case find (\<lambda>def. col_key def = key) cols of
                         None \<Rightarrow> Fin 0
                       | Some column \<Rightarrow>
                           (case col_kind column of
                              KCount \<Rightarrow>
                                Fin (of_int (lookup0 (row_values a) (yearKey column)
                                             - lookup0 (row_values b) (yearKey column)))
                            | KPercent \<Rightarrow>
                                js_sub (percentSortValue yt column a)
                                       (percentSortValue yt column b))))"
    by (simp add: topicCompare_def fun_eq_iff split del: if_split
        cong: if_cong option.case_cong ColumnKind.case_cong)
  then show ?thesis
    by (simp only:)
      (intro consistent_if consistent_case_option consistent_case_kind
        consistent_collation[OF assms] consistent_int consistent_sub consistent_zero)
qed


lemma collation_compareBytes: "collation compareBytes"
  unfolding collation_def compareBytes_def
proof (intro conjI allI impI)
  fix s t :: string
  show "(0 < (if s < t then - 1 else if s = t then 0 else (1 :: int)))
        = ((if t < s then - 1 else if t = s then 0 else (1 :: int)) < 0)"
    by auto
next
  fix s t u :: string
  assume "(if s < t then - 1 else if s = t then 0 else (1 :: int)) < 0
          \<and> (if t < u then - 1 else if t = u then 0 else (1 :: int)) < 0"
  then have "s < t" "t < u" by (auto split: if_splits)
  then have "s < u" by (rule less_trans)
  then show "(if s < u then - 1 else if s = u then 0 else (1 :: int)) < 0" by simp
qed

lemma min_first_insort:
  assumes "\<forall>e \<in> set ys. snd m \<le> snd e"
  shows "hd (insort_js (\<lambda>a b. Fin (of_int (snd a - snd b))) m ys) = (m :: 'a \<times> int)"
  using assms by (cases ys) auto

lemma sort_js_Cons: "sort_js cmp (x # xs) = insort_js cmp x (sort_js cmp xs)"
  by (simp add: sort_js_def)

lemma min_first:
  assumes "m \<in> set xs" "\<forall>e \<in> set xs. e \<noteq> m \<longrightarrow> snd m < snd e"
  shows "sort_js (\<lambda>a b. Fin (of_int (snd a - snd b))) xs \<noteq> []
         \<and> hd (sort_js (\<lambda>a b. Fin (of_int (snd a - snd b))) xs) = (m :: 'a \<times> int)"
  using assms
proof (induction xs)
  case Nil
  then show ?case by simp
next
  case (Cons x xs)
  let ?cmp = "\<lambda>a b :: 'a \<times> int. Fin (of_int (snd a - snd b))"
  have ne: "sort_js ?cmp (x # xs) \<noteq> []"
    using length_sort_js[of ?cmp "x # xs"] by (metis length_0_conv list.distinct(1))
  show ?case
  proof (cases "x = m")
    case True
    have "\<forall>e \<in> set (sort_js ?cmp xs). snd m \<le> snd e"
      using Cons.prems(2) by (auto simp: set_sort_js intro: less_imp_le)
    then show ?thesis
      using ne True min_first_insort[of "sort_js ?cmp xs" m] by (simp add: sort_js_Cons)
  next
    case False
    then have "m \<in> set xs" using Cons.prems(1) by auto
    then have IH: "sort_js ?cmp xs \<noteq> []" "hd (sort_js ?cmp xs) = m"
      using Cons.IH Cons.prems(2) by auto
    then obtain rest where r: "sort_js ?cmp xs = m # rest"
      by (cases "sort_js ?cmp xs") auto
    have "snd m < snd x" using Cons.prems(2) False by auto
    then have "insort_js ?cmp x (m # rest) = m # insort_js ?cmp x rest" by simp
    then have "sort_js ?cmp (x # xs) = m # insort_js ?cmp x rest"
      by (simp only: sort_js_Cons r)
    then show ?thesis by (simp only: list.sel) simp
  qed
qed

lemma update_mem: "(k, v) \<in> set (AList.update k v al)"
  by (induction al) auto

lemma update_keep: "(k, v) \<in> set al \<Longrightarrow> k \<noteq> k' \<Longrightarrow> (k, v) \<in> set (AList.update k' v' al)"
  by (induction al) auto

lemma yearBins_pivotDoc_ukjent:
  "yearBins (pivotDoc_ukjent m bs st row)
   = (case yearValueOf m (docId row) of
        Fin y \<Rightarrow> AList.update (binLabel bs (binStart bs y)) (binStart bs y) (yearBins st)
      | _ \<Rightarrow> AList.update ''Ukjent'' (- 1) (yearBins st))"
  by (cases "yearValueOf m (docId row)")
    (simp_all add: pivotDoc_ukjent_def getYearLabel_ukjent_def Let_def yearBins_foldl_addCount)

lemma ukjent_kept_step:
  assumes "(''Ukjent'', - 1) \<in> set (yearBins st)"
  shows "(''Ukjent'', - 1) \<in> set (yearBins (pivotDoc_ukjent m bs st row))"
  using assms update_mem[of "''Ukjent''" "- 1" "yearBins st"]
    update_keep[OF assms, of "binLabel bs (binStart bs y)" for y]
    binLabel_not_Ukjent[of bs]
  by (cases "yearValueOf m (docId row)") (simp_all add: yearBins_pivotDoc_ukjent, metis)

lemma ukjent_kept:
  "(''Ukjent'', - 1) \<in> set (yearBins st) \<Longrightarrow>
   (''Ukjent'', - 1) \<in> set (yearBins (foldl (pivotDoc_ukjent m bs) st rows))"
  by (induction rows arbitrary: st) (simp_all add: ukjent_kept_step)

lemma ukjent_added_step:
  "\<not> hasYear m (docId row) \<Longrightarrow> (''Ukjent'', - 1) \<in> set (yearBins (pivotDoc_ukjent m bs st row))"
  using update_mem[of "''Ukjent''" "- 1" "yearBins st"]
  by (cases "yearValueOf m (docId row)") (simp_all add: yearBins_pivotDoc_ukjent hasYear_iff)

lemma ukjent_added:
  "\<exists>row \<in> set rows. \<not> hasYear m (docId row) \<Longrightarrow>
   (''Ukjent'', - 1) \<in> set (yearBins (foldl (pivotDoc_ukjent m bs) st rows))"
proof (induction rows arbitrary: st)
  case Nil
  then show ?case by simp
next
  case (Cons row rows)
  show ?case
  proof (cases "hasYear m (docId row)")
    case True
    then show ?thesis using Cons by simp
  next
    case False
    then show ?thesis using ukjent_kept[OF ukjent_added_step[OF False]] by simp
  qed
qed

lemma yearBins_foldl_pivotDoc_ukjent:
  "set (yearBins (foldl (pivotDoc_ukjent m bs) st rows))
   \<subseteq> set (yearBins st) \<union> set (binsOf m bs rows) \<union> {(''Ukjent'', - 1)}"
proof (induction rows arbitrary: st)
  case Nil
  then show ?case by auto
next
  case (Cons row rows)
  have 1: "set (yearBins (pivotDoc_ukjent m bs st row))
           \<subseteq> set (yearBins st) \<union> set (binsOf m bs [row]) \<union> {(''Ukjent'', - 1)}"
    using set_update_subset
    by (cases "yearValueOf m (docId row)") (fastforce simp: yearBins_pivotDoc_ukjent binsOf_single)+
  have 2: "set (binsOf m bs [row]) \<union> set (binsOf m bs rows) = set (binsOf m bs (row # rows))"
    by (simp add: binsOf_Cons[of m bs row rows])
  show ?case using Cons.IH[of "pivotDoc_ukjent m bs st row"] 1 2 by auto
qed

lemma binsOf_start:
  "(l, s) \<in> set (binsOf m bs rows) \<Longrightarrow>
   \<exists>row \<in> set rows. \<exists>y. yearValueOf m (docId row) = Fin y \<and> s = binStart bs y"
proof (induction rows)
  case Nil
  then show ?case by (simp add: binsOf_Nil)
next
  case (Cons row rows)
  show ?case
  proof (cases "(l, s) \<in> set (binsOf m bs rows)")
    case True
    then show ?thesis using Cons.IH by auto
  next
    case False
    then have "(l, s) \<in> set (binsOf m bs [row])"
      using Cons.prems by (simp add: binsOf_Cons[of m bs row rows])
    then obtain y where "yearValueOf m (docId row) = Fin y" "s = binStart bs y"
      by (cases "yearValueOf m (docId row)") (simp_all add: binsOf_single)
    then show ?thesis by auto
  qed
qed

lemma binStart_nonneg: "0 < bs \<Longrightarrow> 0 \<le> y \<Longrightarrow> 0 \<le> binStart bs y"
  by (simp add: binStart_def)

lemma lookup0_update: "lookup0 (AList.update k v al) l = (if l = k then v else lookup0 al l)"
  by (simp add: lookup0_def update_conv')

lemma addCount_yearTotals:
  "yearTotals (addCount label st tv)
   = (if fst tv \<in> row_id ` set (topicRows st)
      then AList.update label (lookup0 (yearTotals st) label + snd tv) (yearTotals st)
      else yearTotals st)"
proof (cases "fst tv \<in> row_id ` set (topicRows st)")
  case True
  then have "\<exists>r\<in>set (topicRows st). row_id r = fst tv" by auto
  then show ?thesis using True by (auto simp: addCount_def Let_def)
next
  case False
  then have "\<not> (\<exists>r\<in>set (topicRows st). row_id r = fst tv)" by (metis image_eqI)
  then show ?thesis using False by (auto simp: addCount_def Let_def)
qed

lemma yearTotals_addCount_other:
  "l \<noteq> label \<Longrightarrow> lookup0 (yearTotals (addCount label st tv)) l = lookup0 (yearTotals st) l"
  by (simp add: addCount_yearTotals lookup0_update)

lemma yearTotals_foldl_addCount_other:
  "l \<noteq> label \<Longrightarrow>
   lookup0 (yearTotals (foldl (addCount label) st tvs)) l = lookup0 (yearTotals st) l"
  by (induction tvs arbitrary: st) (simp_all add: yearTotals_addCount_other)

lemma addCount_sim:
  assumes "map row_id (topicRows s1) = map row_id (topicRows s2)"
    and "lookup0 (yearTotals s1) l = lookup0 (yearTotals s2) l"
  shows "lookup0 (yearTotals (addCount label s1 tv)) l
         = lookup0 (yearTotals (addCount label s2 tv)) l"
proof -
  have "row_id ` set (topicRows s1) = row_id ` set (topicRows s2)"
    using arg_cong[OF assms(1), of set] by (simp only: set_map)
  then show ?thesis
    using assms(2) by (auto simp: addCount_yearTotals lookup0_update)
qed

lemma foldl_addCount_sim:
  assumes "map row_id (topicRows s1) = map row_id (topicRows s2)"
    and "lookup0 (yearTotals s1) l = lookup0 (yearTotals s2) l"
  shows "lookup0 (yearTotals (foldl (addCount label) s1 tvs)) l
         = lookup0 (yearTotals (foldl (addCount label) s2 tvs)) l"
  using assms
proof (induction tvs arbitrary: s1 s2)
  case Nil
  then show ?case by simp
next
  case (Cons tv tvs)
  have a: "map row_id (topicRows (addCount label s1 tv)) = map row_id (topicRows (addCount label s2 tv))"
    using Cons.prems(1) by (simp add: ids_addCount)
  have b: "lookup0 (yearTotals (addCount label s1 tv)) l
                 = lookup0 (yearTotals (addCount label s2 tv)) l"
    using Cons.prems by (rule addCount_sim)
  show ?case unfolding foldl_Cons by (rule Cons.IH[OF a b])
qed

lemma ids_pivotDoc_ukjent:
  "map row_id (topicRows (pivotDoc_ukjent m bs st row)) = map row_id (topicRows st)"
  by (simp add: pivotDoc_ukjent_def ids_foldl_addCount split: prod.splits)

lemma getYearLabel_ukjent_fst:
  "fst (getYearLabel_ukjent m bs d yb1) = fst (getYearLabel_ukjent m bs d yb2)"
  by (cases "yearValueOf m d") (simp_all add: getYearLabel_ukjent_def Let_def)

lemma pivotDoc_ukjent_eq:
  "pivotDoc_ukjent m bs st row
   = foldl (addCount (fst (getYearLabel_ukjent m bs (docId row) (yearBins st))))
       (st\<lparr>yearBins := snd (getYearLabel_ukjent m bs (docId row) (yearBins st))\<rparr>) (topics row)"
  by (simp add: pivotDoc_ukjent_def split: prod.splits)

lemma pivotDoc_ukjent_sim:
  assumes "map row_id (topicRows s1) = map row_id (topicRows s2)"
    and "lookup0 (yearTotals s1) l = lookup0 (yearTotals s2) l"
  shows "lookup0 (yearTotals (pivotDoc_ukjent m bs s1 row)) l
         = lookup0 (yearTotals (pivotDoc_ukjent m bs s2 row)) l"
  unfolding pivotDoc_ukjent_eq getYearLabel_ukjent_fst[of m bs "docId row" "yearBins s1" "yearBins s2"]
  using assms by (rule_tac foldl_addCount_sim) simp_all

lemma pivotDoc_ukjent_noYear:
  assumes "\<not> hasYear m (docId row)" "l \<noteq> ''Ukjent''"
  shows "lookup0 (yearTotals (pivotDoc_ukjent m bs st row)) l = lookup0 (yearTotals st) l"
proof -
  have "getYearLabel_ukjent m bs (docId row) (yearBins st)
        = (''Ukjent'', AList.update ''Ukjent'' (- 1) (yearBins st))"
    using assms(1)
    by (cases "yearValueOf m (docId row)") (simp_all add: getYearLabel_ukjent_def hasYear_iff)
  then show ?thesis
    unfolding pivotDoc_ukjent_eq
    using yearTotals_foldl_addCount_other[OF assms(2), of _ "topics row"]
    by simp
qed

lemma foldl_pivotDoc_ukjent_sim:
  assumes "map row_id (topicRows s1) = map row_id (topicRows s2)"
    and "lookup0 (yearTotals s1) l = lookup0 (yearTotals s2) l"
    and "l \<noteq> ''Ukjent''"
  shows "lookup0 (yearTotals (foldl (pivotDoc_ukjent m bs) s1 rows)) l
         = lookup0 (yearTotals (foldl (pivotDoc_ukjent m bs) s2
              (filter (\<lambda>row. hasYear m (docId row)) rows))) l"
  using assms(1,2)
proof (induction rows arbitrary: s1 s2)
  case Nil
  then show ?case by simp
next
  case (Cons row rows)
  show ?case
  proof (cases "hasYear m (docId row)")
    case True
    have f: "filter (\<lambda>row. hasYear m (docId row)) (row # rows)
             = row # filter (\<lambda>row. hasYear m (docId row)) rows"
      using True by simp
    have a: "map row_id (topicRows (pivotDoc_ukjent m bs s1 row))
          = map row_id (topicRows (pivotDoc_ukjent m bs s2 row))"
      using Cons.prems(1) by (simp add: ids_pivotDoc_ukjent)
    have b: "lookup0 (yearTotals (pivotDoc_ukjent m bs s1 row)) l
                   = lookup0 (yearTotals (pivotDoc_ukjent m bs s2 row)) l"
      using Cons.prems by (rule pivotDoc_ukjent_sim)
    show ?thesis unfolding f foldl_Cons by (rule Cons.IH[OF a b])
  next
    case False
    have f: "filter (\<lambda>row. hasYear m (docId row)) (row # rows)
             = filter (\<lambda>row. hasYear m (docId row)) rows"
      using False by simp
    have a: "map row_id (topicRows (pivotDoc_ukjent m bs s1 row)) = map row_id (topicRows s2)"
      using Cons.prems(1) by (simp add: ids_pivotDoc_ukjent)
    have b: "lookup0 (yearTotals (pivotDoc_ukjent m bs s1 row)) l = lookup0 (yearTotals s2) l"
      using Cons.prems(2) pivotDoc_ukjent_noYear[OF False assms(3)] by simp
    show ?thesis unfolding f foldl_Cons by (rule Cons.IH[OF a b])
  qed
qed

section \<open>The claims\<close>

text \<open>
  C10. Whatever the view options, the table's \<^verbatim>\<open>totalRows\<close> is the number of rows
  before the threshold filter (the length of the rows of the table built with threshold
  \<open>0\<close>): the number of documents in by-document mode, the size of the topic universe in
  pivoted mode. The filtered rows are never more.
\<close>

theorem totalRows_counts_unfiltered_rows:
  assumes "evaluateData st = Some rows"
  shows "\<exists>tbl tbl0. evaluationTable lc st = Some tbl
           \<and> evaluationTable lc (st\<lparr>totalThreshold := 0\<rparr>) = Some tbl0
           \<and> tbl_totalRows tbl = length (tbl_rows tbl0)
           \<and> tbl_totalRows tbl = (if aggregateByYear st then length (topicsOf rows) else length rows)
           \<and> length (topicsOf rows) = card (\<Union>(d, ts) \<in> set rows. fst ` set ts)
           \<and> length (tbl_rows tbl) \<le> tbl_totalRows tbl"
proof -
  have card: "length (topicsOf rows) = card (\<Union>(d, ts) \<in> set rows. fst ` set ts)"
    using distinct_card[OF distinct_topicsOf, of rows] by (simp add: set_topicsOf)
  show ?thesis
  proof (cases "aggregateByYear st")
    case True
    then show ?thesis
      using assms card
      by (simp add: evaluationTable_def Let_def filtered_0 length_sort_js length_pivot
          order_trans[OF length_filtered] docCompare_def topicCompare_def)
  next
    case False
    then show ?thesis
      using assms card
      by (simp add: evaluationTable_def Let_def filtered_0 length_sort_js docRowsOf_def
          rowsWithTotals_def order_trans[OF length_filtered] docCompare_def)
  qed
qed

theorem totalRows_counts_unfiltered_rows_witness:
  "evaluateData (exampleState\<lparr>totalThreshold := 4\<rparr>) = Some exampleData
   \<and> map_option tbl_totalRows (evaluationTable compareBytes (exampleState\<lparr>totalThreshold := 4\<rparr>)) = Some 2
   \<and> map_option (map row_id \<circ> tbl_rows) (evaluationTable compareBytes (exampleState\<lparr>totalThreshold := 4\<rparr>)) = Some [''doc2'']"
proof -
  have h: "evaluateData (exampleState\<lparr>totalThreshold := 4\<rparr>) = Some exampleData"
    by (simp add: exampleState_def)
  have "map_option (map row_id \<circ> tbl_rows) (evaluationTable compareBytes (exampleState\<lparr>totalThreshold := 4\<rparr>)) = Some [''doc2'']"
    by (simp add: exampleState_def exampleData_def evaluationTable_def topicsOf_def rowsWithTotals_def sumValues_def docRowsOf_def sort_js_def docCompare_def direction_def filtered_def)
  then show ?thesis
    using h totalRows_counts_unfiltered_rows[OF h, of compareBytes]
    by (auto simp: exampleState_def exampleData_def)
qed

text \<open>
  C5. \<^verbatim>\<open>handleSort\<close> on the current key flips the direction; on a new key it sets
  ascending for \<^verbatim>\<open>title\<close>, \<^verbatim>\<open>authors\<close> and \<^verbatim>\<open>dhlabid\<close> and descending for every
  other key. The row-identity key \<^verbatim>\<open>row\<close> of the pivoted table, which both
  comparators order by \<^verbatim>\<open>localeCompare\<close> like \<^verbatim>\<open>dhlabid\<close>, is not in the list:
  selecting it gives descending, not the ascending default of the lexical keys.
\<close>

theorem handleSort_directions:
  "sortKey (handleSort key st) = key
   \<and> sortDir (handleSort key st) =
       (if sortKey st = key then (if sortDir st = asc then desc else asc)
        else if key \<in> {''title'', ''authors'', ''dhlabid''} then asc else desc)
   \<and> (sortKey st \<noteq> ''row'' \<longrightarrow> sortDir (handleSort ''row'' st) = desc)"
  by (simp add: handleSort_def)

theorem handleSort_directions_witness:
  "sortKey exampleState \<noteq> ''row''
   \<and> sortKey (handleSort ''row'' exampleState) = ''row''
   \<and> sortDir (handleSort ''row'' exampleState) = desc
   \<and> sortDir (handleSort ''dhlabid'' exampleState) = asc"
  using handleSort_directions[of "''row''" exampleState]
    handleSort_directions[of "''dhlabid''" exampleState]
  by (simp add: exampleState_def)

text \<open>
  C1. Conservation of totals under pivoting: when every document of the evaluation result
  has a usable (finite numeric) year, the totals of the by-document rows and the totals of
  the by-year pivoted rows, built from the same result and metadata, have the same sum.
  This holds for the rows the builder makes, and for the rows of the two tables whenever
  the threshold filter is off.
\<close>

theorem pivot_conserves_totals:
  assumes "evaluateData st = Some rows"
    and "\<forall>d \<in> fst ` set rows. hasYear (corpusMetaById st) d"
  shows "sum_list (map row_total (docRowsOf (rowsWithTotals rows)))
         = sum_list (map row_total
             (topicRows (pivot (corpusMetaById st) (binSize (yearBinSize st)) (topicsOf rows)
                           (rowsWithTotals rows))))
       \<and> (totalThreshold st \<le> 0 \<longrightarrow>
            (\<exists>byDoc byYear.
                evaluationTable lc (st\<lparr>aggregateByYear := False\<rparr>) = Some byDoc
              \<and> evaluationTable lc (st\<lparr>aggregateByYear := True\<rparr>) = Some byYear
              \<and> sum_list (map row_total (tbl_rows byDoc))
                = sum_list (map row_total (tbl_rows byYear))))"
proof -
  have "(\<Sum>(d, ts) \<leftarrow> rows. if hasYear (corpusMetaById st) d then sumValues ts else 0)
        = (\<Sum>(d, ts) \<leftarrow> rows. sumValues ts)"
    using assms(2) by (intro arg_cong[where f = sum_list] map_cong) auto
  then have eq: "sum_list (map row_total (docRowsOf (rowsWithTotals rows)))
         = sum_list (map row_total
             (topicRows (pivot (corpusMetaById st) (binSize (yearBinSize st)) (topicsOf rows)
                           (rowsWithTotals rows))))"
    by (simp add: total_pivot total_docRows)
  then show ?thesis
    using assms(1)
    by (simp add: evaluationTable_def Let_def filtered_def sum_list_sort_js)
qed

theorem pivot_conserves_totals_witness:
  "evaluateData exampleState = Some exampleData
   \<and> hasYear (corpusMetaById exampleState) ''doc1''
   \<and> hasYear (corpusMetaById exampleState) ''doc2''
   \<and> sum_list (map row_total (docRowsOf (rowsWithTotals exampleData))) = 8
   \<and> sum_list (map row_total
         (topicRows (pivot (corpusMetaById exampleState) (binSize (yearBinSize exampleState))
                       (topicsOf exampleData) (rowsWithTotals exampleData)))) = 8"
proof -
  have h1: "evaluateData exampleState = Some exampleData"
    by (simp add: exampleState_def)
  have y1: "yearValueOf exampleMeta ''doc1'' = Fin 1994"
    by (simp add: yearValueOf_def exampleMeta_def metaOfYear_def Number_eval)
  have y2: "yearValueOf exampleMeta ''doc2'' = Fin 1988"
    by (simp add: yearValueOf_def exampleMeta_def metaOfYear_def Number_eval)
  have h2: "\<forall>d \<in> fst ` set exampleData. hasYear (corpusMetaById exampleState) d"
    using y1 y2 by (simp add: exampleData_def exampleState_def hasYear_def)
  have "sum_list (map row_total (docRowsOf (rowsWithTotals exampleData))) = 8"
    by (simp add: exampleData_def docRowsOf_def rowsWithTotals_def sumValues_def)
  then show ?thesis
    using h1 h2 pivot_conserves_totals[OF h1 h2, of compareBytes]
    by (simp add: exampleData_def)
qed


text \<open>
  C2. Without aggregation the table has one row per document of the result (all of them
  when no threshold filters) and its columns are the union of the documents' topics,
  sorted and without repetition. A cell shows the document's count of the column's topic
  when the document has it. When the document omits the topic the cell is \<open>0\<close> unless
  the topic bears the name of a member of \<^verbatim>\<open>Object.prototype\<close>: then the cell reads the
  inherited member, not \<open>0\<close>. Each row's total is the sum of the document's counts over the
  columns, an omitted topic counting \<open>0\<close>. For the scenario
  \<^verbatim>\<open>{"doc1": {"nature": 3, "war": 0}, "doc2": {"nature": 5}}\<close> the columns are
  \<^verbatim>\<open>nature\<close>, \<^verbatim>\<open>war\<close>, the totals 3 and 5, and sorting by total, descending, puts
  \<^verbatim>\<open>doc2\<close> first. For \<^verbatim>\<open>{"doc1": {"constructor": 2}, "doc2": {"nature": 5}}\<close> the cell of
  \<^verbatim>\<open>doc2\<close> in column \<^verbatim>\<open>constructor\<close> is the inherited member.
\<close>

theorem by_document_table:
  assumes "evaluateData st = Some rows" and "\<not> aggregateByYear st"
    and "distinct (map fst rows)" and "\<forall>(d, ts) \<in> set rows. distinct (map fst ts)"
  shows "\<exists>tbl. evaluationTable lc st = Some tbl
           \<and> (totalThreshold st \<le> 0 \<longrightarrow> mset (map row_id (tbl_rows tbl)) = mset (map fst rows))
           \<and> distinct (map row_id (tbl_rows tbl))
           \<and> map col_key (tbl_columns tbl) = topicsOf rows
           \<and> set (topicsOf rows) = (\<Union>(d, ts) \<in> set rows. fst ` set ts)
           \<and> sorted (topicsOf rows) \<and> distinct (topicsOf rows)
           \<and> (\<forall>r \<in> set (tbl_rows tbl). \<exists>ts. map_of rows (row_id r) = Some ts
                 \<and> (\<forall>c \<in> set (tbl_columns tbl).
                       valueOfCell r c
                       = (case map_of ts (col_key c) of
                            Some v \<Rightarrow> Num v
                          | None \<Rightarrow> if col_key c \<in> set objectPrototypeMembers
                                    then Inherited (col_key c) else Num 0))
                 \<and> row_total r = (\<Sum>c \<leftarrow> tbl_columns tbl. lookup0 ts (col_key c)))
           \<and> map_option (\<lambda>t. (map col_key (tbl_columns t),
                                map (\<lambda>r. (row_id r, row_total r)) (tbl_rows t)))
                 (evaluationTable lc exampleState)
               = Some ([''nature'', ''war''], [(''doc2'', 5), (''doc1'', 3)])
           \<and> map_option (\<lambda>t. (map col_key (tbl_columns t),
                                map (\<lambda>r. (row_id r, map (valueOfCell r) (tbl_columns t), row_total r))
                                  (tbl_rows t)))
                 (evaluationTable lc
                    (exampleState\<lparr>evaluateData :=
                       Some [(''doc1'', [(''constructor'', 2)]), (''doc2'', [(''nature'', 5)])]\<rparr>))
               = Some ([''constructor'', ''nature''],
                       [(''doc2'', [Inherited ''constructor'', Num 5], 5),
                        (''doc1'', [Num 2, Num 0], 2)])"
proof -
  let ?docRows = "docRowsOf (rowsWithTotals rows)"
  let ?cols = "map (\<lambda>topic. \<lparr>col_key = topic, col_label = topic, col_kind = KCount,
                                col_year = None\<rparr>) (topicsOf rows)"
  let ?tbl = "\<lparr>tbl_mode = ModeDocs,
               tbl_rows = filtered (totalThreshold st) (sort_js (docCompare lc st (topicsOf rows)) ?docRows),
               tbl_columns = ?cols, tbl_totalRows = length ?docRows, tbl_yearTotals = None\<rparr>"
  have tbl: "evaluationTable lc st = Some ?tbl"
    using assms(1,2) by (simp add: evaluationTable_def Let_def)
  have a: "totalThreshold st \<le> 0 \<longrightarrow> mset (map row_id (tbl_rows ?tbl)) = mset (map fst rows)"
    by (simp add: filtered_def mset_sort_js flip: docRows_ids)
  have b: "distinct (map row_id (tbl_rows ?tbl))"
    using assms(3) by (simp add: distinct_map_filtered distinct_map_sort_js docRows_ids)
  have c: "map col_key (tbl_columns ?tbl) = topicsOf rows"
    by (simp add: o_def)
  have d: "sorted (topicsOf rows)"
    by (simp add: topicsOf_def)
  have e: "\<exists>ts. map_of rows (row_id r) = Some ts
                 \<and> (\<forall>c \<in> set (tbl_columns ?tbl).
                       valueOfCell r c
                       = (case map_of ts (col_key c) of
                            Some v \<Rightarrow> Num v
                          | None \<Rightarrow> if col_key c \<in> set objectPrototypeMembers
                                    then Inherited (col_key c) else Num 0))
                 \<and> row_total r = (\<Sum>c \<leftarrow> tbl_columns ?tbl. lookup0 ts (col_key c))"
    if "r \<in> set (tbl_rows ?tbl)" for r
  proof -
    have "r \<in> set ?docRows"
      using that set_filtered[of "totalThreshold st" "sort_js (docCompare lc st (topicsOf rows)) ?docRows"]
      by (auto simp: set_sort_js)
    then obtain dd ts where dts: "(dd, ts) \<in> set rows"
      and r: "r = \<lparr>row_id = dd, row_values = ts, row_total = sumValues ts\<rparr>"
      using docRow_cases by blast
    have m: "map_of rows (row_id r) = Some ts"
      using assms(3) dts r by simp
    have dist: "distinct (map fst ts)" using assms(4) dts by auto
    have sub: "fst ` set ts \<subseteq> set (topicsOf rows)" using dts by (rule topics_in_topicsOf)
    have "(\<Sum>c \<leftarrow> tbl_columns ?tbl. lookup0 ts (col_key c)) = (\<Sum>t \<leftarrow> topicsOf rows. lookup0 ts t)"
      by (simp add: o_def)
    also have "\<dots> = sum_list (map snd ts)"
      by (rule sum_lookup0[OF dist distinct_topicsOf sub])
    finally have tot: "row_total r = (\<Sum>c \<leftarrow> tbl_columns ?tbl. lookup0 ts (col_key c))"
      using r by (simp add: sumValues_sum_list)
    have cell: "valueOfCell r c
                = (case map_of ts (col_key c) of
                     Some v \<Rightarrow> Num v
                   | None \<Rightarrow> if col_key c \<in> set objectPrototypeMembers
                             then Inherited (col_key c) else Num 0)"
      if "c \<in> set (tbl_columns ?tbl)" for c
    proof -
      have "col_year c = None" using that by auto
      then have "valueOfCell r c = propOr0 ts (col_key c)"
        using r by (simp add: valueOfCell_docs)
      then show ?thesis by (simp only: propOr0_def)
    qed
    show ?thesis using m tot cell by blast
  qed
  have f: "map_option (\<lambda>t. (map col_key (tbl_columns t),
                                map (\<lambda>r. (row_id r, row_total r)) (tbl_rows t)))
                 (evaluationTable lc exampleState)
               = Some ([''nature'', ''war''], [(''doc2'', 5), (''doc1'', 3)])"
    by (simp add: evaluationTable_def exampleState_def exampleData_def topicsOf_def
        rowsWithTotals_def sumValues_def docRowsOf_def sort_js_def docCompare_def direction_def
        filtered_def)
  have g: "map_option (\<lambda>t. (map col_key (tbl_columns t),
                                map (\<lambda>r. (row_id r, map (valueOfCell r) (tbl_columns t), row_total r))
                                  (tbl_rows t)))
                 (evaluationTable lc
                    (exampleState\<lparr>evaluateData :=
                       Some [(''doc1'', [(''constructor'', 2)]), (''doc2'', [(''nature'', 5)])]\<rparr>))
               = Some ([''constructor'', ''nature''],
                       [(''doc2'', [Inherited ''constructor'', Num 5], 5),
                        (''doc1'', [Num 2, Num 0], 2)])"
    by (simp add: evaluationTable_def exampleState_def topicsOf_def
        rowsWithTotals_def sumValues_def docRowsOf_def sort_js_def docCompare_def direction_def
        filtered_def valueOfCell_def propOr0_def objectPrototypeMembers_def)
  have e': "\<forall>r \<in> set (tbl_rows ?tbl). \<exists>ts. map_of rows (row_id r) = Some ts
                 \<and> (\<forall>c \<in> set (tbl_columns ?tbl).
                       valueOfCell r c
                       = (case map_of ts (col_key c) of
                            Some v \<Rightarrow> Num v
                          | None \<Rightarrow> if col_key c \<in> set objectPrototypeMembers
                                    then Inherited (col_key c) else Num 0))
                 \<and> row_total r = (\<Sum>c \<leftarrow> tbl_columns ?tbl. lookup0 ts (col_key c))"
    using e by blast
  show ?thesis
    using tbl a b c d e' f g set_topicsOf[of rows] distinct_topicsOf[of rows]
    by (intro exI[of _ ?tbl] conjI) assumption+
qed

theorem by_document_table_witness:
  "evaluateData exampleState = Some exampleData \<and> \<not> aggregateByYear exampleState
   \<and> distinct (map fst exampleData)
   \<and> list_all (\<lambda>(d, ts). distinct (map fst ts)) exampleData
   \<and> (\<exists>tbl. evaluationTable compareBytes exampleState = Some tbl
          \<and> mset (map row_id (tbl_rows tbl)) = {#''doc1'', ''doc2''#}
          \<and> map col_key (tbl_columns tbl) = topicsOf exampleData
          \<and> (\<forall>r \<in> set (tbl_rows tbl).
                row_total r = (\<Sum>c \<leftarrow> tbl_columns tbl. lookup0 (row_values r) (col_key c))
                \<and> (\<forall>c \<in> set (tbl_columns tbl).
                      valueOfCell r c = Num (lookup0 (row_values r) (col_key c)))))"
proof -
  have h1: "evaluateData exampleState = Some exampleData"
    and h2: "\<not> aggregateByYear exampleState"
    and h0: "totalThreshold exampleState \<le> 0"
    by (simp_all add: exampleState_def)
  have h3: "distinct (map fst exampleData)"
    and h4: "\<forall>(d, ts) \<in> set exampleData. distinct (map fst ts)"
    by (simp_all add: exampleData_def)
  obtain tbl where t: "evaluationTable compareBytes exampleState = Some tbl"
    and a: "totalThreshold exampleState \<le> 0 \<longrightarrow>
            mset (map row_id (tbl_rows tbl)) = mset (map fst exampleData)"
    and c: "map col_key (tbl_columns tbl) = topicsOf exampleData"
    and e: "\<forall>r \<in> set (tbl_rows tbl). \<exists>ts. map_of exampleData (row_id r) = Some ts
                 \<and> (\<forall>c \<in> set (tbl_columns tbl).
                       valueOfCell r c
                       = (case map_of ts (col_key c) of
                            Some v \<Rightarrow> Num v
                          | None \<Rightarrow> if col_key c \<in> set objectPrototypeMembers
                                    then Inherited (col_key c) else Num 0))
                 \<and> row_total r = (\<Sum>c \<leftarrow> tbl_columns tbl. lookup0 ts (col_key c))"
    using by_document_table[OF h1 h2 h3 h4, of compareBytes] by blast
  have rows: "tbl_rows tbl = filtered (totalThreshold exampleState)
       (sort_js (docCompare compareBytes exampleState (topicsOf exampleData))
          (docRowsOf (rowsWithTotals exampleData)))"
    using t h1 h2 by (auto simp: evaluationTable_def Let_def)
  have v: "map_of exampleData (row_id r) = Some (row_values r)" if "r \<in> set (tbl_rows tbl)" for r
  proof -
    have "r \<in> set (docRowsOf (rowsWithTotals exampleData))"
      using that set_filtered[of "totalThreshold exampleState"
          "sort_js (docCompare compareBytes exampleState (topicsOf exampleData))
             (docRowsOf (rowsWithTotals exampleData))"]
      by (auto simp: rows set_sort_js)
    then show ?thesis
      by (auto simp: exampleData_def docRowsOf_def rowsWithTotals_def)
  qed
  have cols: "set (map col_key (tbl_columns tbl)) = {''nature'', ''war''}"
    unfolding c by (simp add: topicsOf_def exampleData_def)
  have w: "row_total r = (\<Sum>c \<leftarrow> tbl_columns tbl. lookup0 (row_values r) (col_key c))
           \<and> (\<forall>c \<in> set (tbl_columns tbl).
                 valueOfCell r c = Num (lookup0 (row_values r) (col_key c)))"
    if r: "r \<in> set (tbl_rows tbl)" for r
  proof -
    from e r v[OF r] have tot: "row_total r = (\<Sum>c \<leftarrow> tbl_columns tbl. lookup0 (row_values r) (col_key c))"
      and cell: "\<forall>c \<in> set (tbl_columns tbl).
                       valueOfCell r c
                       = (case map_of (row_values r) (col_key c) of
                            Some v \<Rightarrow> Num v
                          | None \<Rightarrow> if col_key c \<in> set objectPrototypeMembers
                                    then Inherited (col_key c) else Num 0)"
      by fastforce+
    have "valueOfCell r c = Num (lookup0 (row_values r) (col_key c))"
      if cc: "c \<in> set (tbl_columns tbl)" for c
    proof -
      have "col_key c \<in> {''nature'', ''war''}"
        using cc cols by force
      then have "col_key c \<notin> set objectPrototypeMembers"
        by (auto simp: objectPrototypeMembers_def)
      then show ?thesis
        using cell cc by (simp add: lookup0_def split: option.split)
    qed
    then show ?thesis using tot by blast
  qed
  have "\<forall>r \<in> set (tbl_rows tbl).
          row_total r = (\<Sum>c \<leftarrow> tbl_columns tbl. lookup0 (row_values r) (col_key c))
          \<and> (\<forall>c \<in> set (tbl_columns tbl).
                valueOfCell r c = Num (lookup0 (row_values r) (col_key c)))"
    using w by blast
  moreover have "mset (map row_id (tbl_rows tbl)) = {#''doc1'', ''doc2''#}"
    using a h0 by (simp add: exampleData_def)
  moreover have "list_all (\<lambda>(d, ts). distinct (map fst ts)) exampleData"
    by (simp add: exampleData_def)
  ultimately show ?thesis
    using h1 h2 h3 t c by blast
qed

text \<open>
  C3. In the pivot, a document whose year is not usable (no metadata entry, no year, or a
  year that \<^verbatim>\<open>Number\<close> does not read as a finite number) contributes nothing: the
  pivot state (the topic rows with their values and totals, \<^verbatim>\<open>yearTotals\<close> and the
  year bins) is the one obtained from the documents with a usable year alone. Every year
  column comes from a document with a usable year, and none is labelled \<^verbatim>\<open>Ukjent\<close>.
  A year that is blank (empty, or white space only) is not dropped, though it names no
  year: \<^verbatim>\<open>Number\<close> reads it as \<open>0\<close>, so the document counts as having a year and its
  counts go to the bin that starts at \<open>0\<close>.
\<close>

theorem blank_year_is_binned_at_zero:
  "pivot m bs ts rwt = pivot m bs ts (filter (\<lambda>row. hasYear m (docId row)) rwt)
   \<and> (\<forall>label \<in> set (yearLabelsOf (yearBins (pivot m bs ts rwt))).
         label \<noteq> ''Ukjent''
         \<and> (\<exists>row \<in> set rwt. \<exists>y. yearValueOf m (docId row) = Fin y
                \<and> label = binLabel bs (binStart bs y)))
   \<and> (m d = None \<longrightarrow> \<not> hasYear m d)
   \<and> (\<forall>mm. m d = Some mm \<and> meta_year mm = None \<longrightarrow> \<not> hasYear m d)
   \<and> (\<forall>mm y. m d = Some mm \<and> meta_year mm = Some y \<and> Number_str y \<in> {NaN, PInf, NInf}
         \<longrightarrow> \<not> hasYear m d)
   \<and> (\<forall>mm y. m d = Some mm \<and> meta_year mm = Some y \<and> trim y = []
         \<longrightarrow> hasYear m d \<and> getYearLabel m bs d yb
                              = (Some (binLabel bs 0), AList.update (binLabel bs 0) 0 yb))"
proof -
  have a: "pivot m bs ts rwt = pivot m bs ts (filter (\<lambda>row. hasYear m (docId row)) rwt)"
    unfolding pivot_def by (rule foldl_pivotDoc_filter)
  have b: "label \<noteq> ''Ukjent''
         \<and> (\<exists>row \<in> set rwt. \<exists>y. yearValueOf m (docId row) = Fin y
                \<and> label = binLabel bs (binStart bs y))"
    if "label \<in> set (yearLabelsOf (yearBins (pivot m bs ts rwt)))" for label
  proof -
    from that obtain s where "(label, s) \<in> set (yearBins (pivot m bs ts rwt))"
      by (auto simp: set_yearLabelsOf)
    then have "(label, s) \<in> set (binsOf m bs rwt)"
      using yearBins_foldl_pivotDoc[of m bs "\<lparr>topicRows = emptyRows ts, yearTotals = [], yearBins = []\<rparr>" rwt]
      by (auto simp: pivot_def)
    then obtain row y where "row \<in> set rwt" "yearValueOf m (docId row) = Fin y"
      "label = binLabel bs (binStart bs y)"
      using binsOf_label by blast
    then show ?thesis using binLabel_not_Ukjent[of bs "binStart bs y"] by auto
  qed
  have c: "m d = None \<longrightarrow> \<not> hasYear m d"
    by (simp add: hasYear_def yearValueOf_def Number_opt_def)
  have d: "\<forall>mm. m d = Some mm \<and> meta_year mm = None \<longrightarrow> \<not> hasYear m d"
    by (simp add: hasYear_def yearValueOf_def Number_opt_def)
  have e: "\<forall>mm y. m d = Some mm \<and> meta_year mm = Some y \<and> Number_str y \<in> {NaN, PInf, NInf}
         \<longrightarrow> \<not> hasYear m d"
    by (auto simp: hasYear_def yearValueOf_def Number_opt_def)
  have f: "hasYear m d \<and> getYearLabel m bs d yb
                              = (Some (binLabel bs 0), AList.update (binLabel bs 0) 0 yb)"
    if "m d = Some mm" "meta_year mm = Some y" "trim y = []" for mm y
  proof -
    have "yearValueOf m d = Fin 0"
      using that by (simp add: yearValueOf_def Number_opt_def Number_str_def)
    then show ?thesis
      by (simp add: hasYear_def getYearLabel_def binStart_def Let_def)
  qed
  show ?thesis using a b c d e f by blast
qed

theorem blank_year_is_binned_at_zero_witness:
  "(exampleMeta(''doc3'' \<mapsto> metaOfYear (Some '' ''))) ''doc3'' = Some (metaOfYear (Some '' ''))
   \<and> meta_year (metaOfYear (Some '' '')) = Some '' '' \<and> trim '' '' = []
   \<and> hasYear (exampleMeta(''doc3'' \<mapsto> metaOfYear (Some '' ''))) ''doc3''
   \<and> getYearLabel (exampleMeta(''doc3'' \<mapsto> metaOfYear (Some '' ''))) 1 ''doc3'' []
     = (Some ''0'', [(''0'', 0)])
   \<and> yearTotals (pivot (exampleMeta(''doc3'' \<mapsto> metaOfYear (Some '' ''))) 1 [''nature'', ''war'']
        (rowsWithTotals (exampleData @ [(''doc3'', [(''nature'', 7)])])))
     = [(''1994'', 3), (''1988'', 5), (''0'', 7)]
   \<and> exampleMeta ''doc4'' = None \<and> \<not> hasYear exampleMeta ''doc4''
   \<and> pivot exampleMeta 1 [''nature'', ''war'']
        (rowsWithTotals (exampleData @ [(''doc4'', [(''nature'', 7)])]))
     = pivot exampleMeta 1 [''nature'', ''war''] (rowsWithTotals exampleData)"
proof -
  let ?m = "exampleMeta(''doc3'' \<mapsto> metaOfYear (Some '' ''))"
  note t = blank_year_is_binned_at_zero[of exampleMeta 1 "[''nature'', ''war'']"
      "rowsWithTotals (exampleData @ [(''doc4'', [(''nature'', 7)])])" "''doc4''"]
  note u = blank_year_is_binned_at_zero[of ?m 1 "[''nature'', ''war'']"
      "rowsWithTotals (exampleData @ [(''doc3'', [(''nature'', 7)])])" "''doc3''" "[]"]
  have b1: "?m ''doc3'' = Some (metaOfYear (Some '' ''))"
    by simp
  have b2: "meta_year (metaOfYear (Some '' '')) = Some '' ''"
    by (simp add: metaOfYear_def)
  have b3: "trim '' '' = []"
    by (simp add: trim_def isWhite_def)
  have u5: "\<forall>mm y. ?m ''doc3'' = Some mm \<and> meta_year mm = Some y \<and> trim y = []
         \<longrightarrow> hasYear ?m ''doc3'' \<and> getYearLabel ?m 1 ''doc3'' []
                              = (Some (binLabel 1 0), AList.update (binLabel 1 0) 0 [])"
    using u by (elim conjE)
  have b4: "hasYear ?m ''doc3'' \<and> getYearLabel ?m 1 ''doc3'' []
                              = (Some (binLabel 1 0), AList.update (binLabel 1 0) 0 [])"
    using u5 b1 b2 b3 by blast
  have l0: "binLabel 1 0 = ''0''"
    by (simp add: binLabel_def showInt_def showNat.simps)
  have b5: "getYearLabel ?m 1 ''doc3'' [] = (Some ''0'', [(''0'', 0)])"
    using conjunct2[OF b4] unfolding l0 by simp
  have b6: "yearTotals (pivot ?m 1 [''nature'', ''war'']
        (rowsWithTotals (exampleData @ [(''doc3'', [(''nature'', 7)])])))
     = [(''1994'', 3), (''1988'', 5), (''0'', 7)]"
    by (simp add: pivot_def pivotDoc_def getYearLabel_def yearValueOf_def exampleMeta_def
        metaOfYear_def Number_eval label_eval binStart_def addCount_def emptyRows_def
        rowsWithTotals_def exampleData_def sumValues_def Let_def)
  have n: "exampleMeta ''doc4'' = None"
    by (simp add: exampleMeta_def)
  have n': "\<not> hasYear exampleMeta ''doc4''"
    using conjunct1[OF conjunct2[OF conjunct2[OF t]]] n by (rule mp)
  have y: "hasYear exampleMeta ''doc1''" "hasYear exampleMeta ''doc2''"
    by (simp_all add: hasYear_def yearValueOf_def exampleMeta_def metaOfYear_def Number_eval)
  have f: "filter (\<lambda>row. hasYear exampleMeta (docId row))
             (rowsWithTotals (exampleData @ [(''doc4'', [(''nature'', 7)])]))
           = rowsWithTotals exampleData"
    using y n' by (simp add: rowsWithTotals_def exampleData_def)
  have p: "pivot exampleMeta 1 [''nature'', ''war'']
        (rowsWithTotals (exampleData @ [(''doc4'', [(''nature'', 7)])]))
     = pivot exampleMeta 1 [''nature'', ''war''] (rowsWithTotals exampleData)"
    using conjunct1[OF t] unfolding f .
  show ?thesis
    using b1 b2 b3 conjunct1[OF b4] b5 b6 n n' p by (intro conjI)
qed

text \<open>
  C4 (amended). Percent values never divide by zero. In a table cell and in the chart
  series a percent value is \<open>100 \<times> count / yearTotals[bin]\<close> when the year total is
  positive and \<open>0\<close> otherwise; the percent sort comparator compares
  \<open>count / yearTotals[bin]\<close> (the same ratio without the factor 100) when the year total
  is positive and \<open>0\<close> otherwise. Cell values, comparator results and chart values are
  always finite numbers.
\<close>

theorem percent_never_divides_by_zero:
  "(col_kind column = KPercent \<and> tbl_mode tbl = ModeTopics \<and> col_year column = Some y
      \<and> tbl_yearTotals tbl = Some yt \<longrightarrow>
      cellValue tbl row column
      = (if lookup0 yt y > 0
         then Fin (100 * of_int (lookup0 (row_values row) y) / of_int (lookup0 yt y))
         else Fin 0))
   \<and> (col_year column = Some y \<and> tbl_yearTotals tbl = Some yt \<longrightarrow>
      chartValue tbl True row column
      = (if lookup0 yt y > 0
         then Fin (100 * of_int (lookup0 (row_values row) y) / of_int (lookup0 yt y))
         else Fin 0))
   \<and> (col_year column = Some y \<longrightarrow>
      percentSortValue yt column row
      = (if lookup0 yt y > 0
         then Fin (of_int (lookup0 (row_values row) y) / of_int (lookup0 yt y))
         else Fin 0))
   \<and> isFinite (cellValue tbl row column)
   \<and> isFinite (topicCompare lc key dir columnDefs yt a b)
   \<and> (\<forall>ch. chartSeries (Some tbl) st = Some ch \<longrightarrow>
         (\<forall>s \<in> set (chart_series ch). list_all isFinite (series_values s)))"
proof -
  have 1: "col_kind column = KPercent \<and> tbl_mode tbl = ModeTopics \<and> col_year column = Some y
      \<and> tbl_yearTotals tbl = Some yt \<longrightarrow>
      cellValue tbl row column
      = (if lookup0 yt y > 0
         then Fin (100 * of_int (lookup0 (row_values row) y) / of_int (lookup0 yt y))
         else Fin 0)"
    by (simp add: cellValue_def percentOf_eq denomOf_def yearKey_def)
  have 2: "col_year column = Some y \<and> tbl_yearTotals tbl = Some yt \<longrightarrow>
      chartValue tbl True row column
      = (if lookup0 yt y > 0
         then Fin (100 * of_int (lookup0 (row_values row) y) / of_int (lookup0 yt y))
         else Fin 0)"
    by (simp add: chartValue_def percentOf_eq denomOf_def yearKey_def)
  have 3: "col_year column = Some y \<longrightarrow>
      percentSortValue yt column row
      = (if lookup0 yt y > 0
         then Fin (of_int (lookup0 (row_values row) y) / of_int (lookup0 yt y))
         else Fin 0)"
    by (simp add: percentSortValue_eq yearKey_def)
  have 4: "\<forall>ch. chartSeries (Some tbl) st = Some ch \<longrightarrow>
         (\<forall>s \<in> set (chart_series ch). list_all isFinite (series_values s))"
    using chartSeries_finite by blast
  show ?thesis
    using 1 2 3 4 isFinite_cellValue[of tbl row column]
      isFinite_topicCompare[of lc key dir columnDefs yt a b]
    by (intro conjI) assumption+
qed

theorem percent_never_divides_by_zero_witness:
  "cellValue \<lparr>tbl_mode = ModeTopics, tbl_rows = [], tbl_columns = [], tbl_totalRows = 0,
              tbl_yearTotals = Some [(''1990-1999'', 3)]\<rparr>
     \<lparr>row_id = ''nature'', row_values = [(''1990-1999'', 3)], row_total = 3\<rparr>
     \<lparr>col_key = ''1990-1999__percent'', col_label = ''1990-1999 %'', col_kind = KPercent,
      col_year = Some ''1990-1999''\<rparr> = Fin 100
   \<and> percentSortValue []
     \<lparr>col_key = ''1990-1999__percent'', col_label = ''1990-1999 %'', col_kind = KPercent,
      col_year = Some ''1990-1999''\<rparr>
     \<lparr>row_id = ''nature'', row_values = [(''1990-1999'', 3)], row_total = 3\<rparr> = Fin 0"
  using percent_never_divides_by_zero[of
      "\<lparr>col_key = ''1990-1999__percent'', col_label = ''1990-1999 %'', col_kind = KPercent,
        col_year = Some ''1990-1999''\<rparr>"
      "\<lparr>tbl_mode = ModeTopics, tbl_rows = [], tbl_columns = [], tbl_totalRows = 0,
        tbl_yearTotals = Some [(''1990-1999'', 3)]\<rparr>"
      "''1990-1999''" "[(''1990-1999'', 3)]"
      "\<lparr>row_id = ''nature'', row_values = [(''1990-1999'', 3)], row_total = 3\<rparr>"]
    percent_never_divides_by_zero[where
      column = "\<lparr>col_key = ''1990-1999__percent'', col_label = ''1990-1999 %'',
        col_kind = KPercent, col_year = Some ''1990-1999''\<rparr>"
      and y = "''1990-1999''" and yt = "[]"
      and row = "\<lparr>row_id = ''nature'', row_values = [(''1990-1999'', 3)], row_total = 3\<rparr>"]
  by simp

text \<open>
  C4, as stated, fails for the sort comparator: with count 1 and year total 2 it compares
  \<open>1/2\<close>, not \<open>50\<close>.
\<close>

theorem percent_comparator_counterexample:
  "lookup0 [(''1994'', 2)] ''1994'' > 0
   \<and> percentSortValue [(''1994'', 2)]
        \<lparr>col_key = ''1994__percent'', col_label = ''1994 %'', col_kind = KPercent,
         col_year = Some ''1994''\<rparr>
        \<lparr>row_id = ''nature'', row_values = [(''1994'', 1)], row_total = 1\<rparr>
      = Fin (1 / 2)
   \<and> Fin (1 / 2) \<noteq> Fin (100 * of_int (lookup0 [(''1994'', 1)] ''1994'')
                           / of_int (lookup0 [(''1994'', 2)] ''1994''))"
  by (simp add: percentSortValue_def yearKey_def js_div_def)

text \<open>
  C6 (amended). The bin size is \<open>max 1 \<lfloor>yearBinSize\<rfloor>\<close> (with \<open>0\<close> read as \<open>1\<close>):
  every input below 2, so every non-positive one, gives size 1, and every other input is
  rounded down. For a positive integer size \<open>n\<close>, a document whose year reads as the
  number \<open>y\<close> falls into the bin starting at \<open>\<lfloor>y / n\<rfloor> \<times> n\<close>, labelled
  \<^verbatim>\<open>start-(start+n-1)\<close>, or just \<open>\<lfloor>y\<rfloor>\<close> when \<open>n = 1\<close>.
\<close>

theorem year_bin_size_coercion:
  "(ybs < 2 \<longrightarrow> binSize ybs = 1)
   \<and> (2 \<le> ybs \<longrightarrow> binSize ybs = \<lfloor>ybs\<rfloor>)
   \<and> (0 < n \<and> yearValueOf m d = Fin y \<longrightarrow>
        binSize (of_int n) = n
        \<and> getYearLabel m (binSize (of_int n)) d yb
          = (Some (if n = 1 then showInt \<lfloor>y\<rfloor>
                   else showInt (\<lfloor>y / of_int n\<rfloor> * n) @ ''-''
                        @ showInt (\<lfloor>y / of_int n\<rfloor> * n + n - 1)),
             AList.update
               (if n = 1 then showInt \<lfloor>y\<rfloor>
                else showInt (\<lfloor>y / of_int n\<rfloor> * n) @ ''-''
                     @ showInt (\<lfloor>y / of_int n\<rfloor> * n + n - 1))
               (\<lfloor>y / of_int n\<rfloor> * n) yb))"
proof -
  have "getYearLabel m (binSize (of_int n)) d yb
          = (Some (if n = 1 then showInt \<lfloor>y\<rfloor>
                   else showInt (\<lfloor>y / of_int n\<rfloor> * n) @ ''-''
                        @ showInt (\<lfloor>y / of_int n\<rfloor> * n + n - 1)),
             AList.update
               (if n = 1 then showInt \<lfloor>y\<rfloor>
                else showInt (\<lfloor>y / of_int n\<rfloor> * n) @ ''-''
                     @ showInt (\<lfloor>y / of_int n\<rfloor> * n + n - 1))
               (\<lfloor>y / of_int n\<rfloor> * n) yb)"
    if "0 < n" "yearValueOf m d = Fin y"
    using that by (simp add: binSize_of_int getYearLabel_Some binLabel_def binStart_def)
  then show ?thesis
    using binSize_small[of ybs] binSize_large[of ybs] binSize_of_int[of n] by blast
qed

theorem year_bin_size_coercion_witness:
  "(10 :: int) > 0 \<and> yearValueOf exampleMeta ''doc1'' = Fin 1994
   \<and> binSize (3 / 2) = 1 \<and> binSize (- 4) = 1 \<and> binSize 10 = 10
   \<and> getYearLabel exampleMeta (binSize 10) ''doc1'' []
     = (Some ''1990-1999'', [(''1990-1999'', 1990)])"
proof -
  have y: "yearValueOf exampleMeta ''doc1'' = Fin 1994"
    by (simp add: yearValueOf_def exampleMeta_def metaOfYear_def Number_eval)
  have l: "showInt 1990 = ''1990''" "showInt 1999 = ''1999''"
    by (simp_all add: showInt_def showNat.simps)
  show ?thesis
    using y year_bin_size_coercion[of "3 / 2" 10 exampleMeta "''doc1''" 1994 "[]"]
      year_bin_size_coercion[of "- 4" 10 exampleMeta "''doc1''" 1994 "[]"]
    by (simp add: l)
qed

text \<open>
  C6, as stated, fails for a non-integer above 2: \<open>yearBinSize = 2.5\<close> gives bins of
  size 2 (a document of 1994 falls into \<^verbatim>\<open>1994-1995\<close>), not bins of size 1.
\<close>

theorem year_bin_size_counterexample:
  "of_int \<lfloor>5 / 2 :: rat\<rfloor> \<noteq> (5 / 2 :: rat)
   \<and> binSize (5 / 2) = 2 \<and> binSize 1 = 1
   \<and> fst (getYearLabel exampleMeta (binSize (5 / 2)) ''doc1'' []) = Some ''1994-1995''
   \<and> fst (getYearLabel exampleMeta (binSize 1) ''doc1'' []) = Some ''1994''"
proof -
  have y: "yearValueOf exampleMeta ''doc1'' = Fin 1994"
    by (simp add: yearValueOf_def exampleMeta_def metaOfYear_def Number_eval)
  have b: "binSize (5 / 2) = 2" "binSize 1 = 1"
    by (simp_all add: binSize_def)
  show ?thesis
    by (simp add: b getYearLabel_Some[OF y] label_eval)
qed

text \<open>
  C8 (amended). In document mode with sort key \<^verbatim>\<open>year\<close>, rows are compared numerically
  on the document's metadata year (looked up by id, then by URN): when the years of both
  rows are missing or read as finite numbers, the comparator is the direction times the
  difference of the years, a missing year counting as \<open>0\<close>.
\<close>

theorem year_sort_compares_numeric_years:
  assumes "sortKey st = ''year''"
    and "yearMissingOrFinite st (row_id a)" and "yearMissingOrFinite st (row_id b)"
  shows "docCompare lc st ts a b
         = js_mul (direction (sortDir st))
             (Fin (yearOrZero st (row_id a) - yearOrZero st (row_id b)))
       \<and> (metaChain st meta_year (row_id a) = None \<longrightarrow> yearOrZero st (row_id a) = 0)
       \<and> (sortDir st = asc \<longrightarrow>
            (sortNeg (docCompare lc st ts a b)
             \<longleftrightarrow> yearOrZero st (row_id a) < yearOrZero st (row_id b)))"
proof -
  have 1: "docCompare lc st ts a b
         = js_mul (direction (sortDir st))
             (Fin (yearOrZero st (row_id a) - yearOrZero st (row_id b)))"
    using assms by (simp add: docCompare_def yearSortValue_eq)
  have 2: "metaChain st meta_year (row_id a) = None \<longrightarrow> yearOrZero st (row_id a) = 0"
    by (simp add: yearOrZero_def)
  have 3: "sortDir st = asc \<longrightarrow>
            (sortNeg (docCompare lc st ts a b)
             \<longleftrightarrow> yearOrZero st (row_id a) < yearOrZero st (row_id b))"
    unfolding 1 by auto
  show ?thesis using 1 2 3 by (intro conjI)
qed

theorem year_sort_compares_numeric_years_witness:
  "sortKey (exampleState\<lparr>sortKey := ''year''\<rparr>) = ''year''
   \<and> yearMissingOrFinite (exampleState\<lparr>sortKey := ''year''\<rparr>) ''doc1''
   \<and> yearMissingOrFinite (exampleState\<lparr>sortKey := ''year''\<rparr>) ''doc3''
   \<and> docCompare compareBytes (exampleState\<lparr>sortKey := ''year''\<rparr>) []
        \<lparr>row_id = ''doc1'', row_values = [], row_total = 0\<rparr>
        \<lparr>row_id = ''doc3'', row_values = [], row_total = 0\<rparr> = Fin (- 1994)"
proof -
  let ?st = "exampleState\<lparr>sortKey := ''year''\<rparr>"
  let ?a = "\<lparr>row_id = ''doc1'', row_values = [], row_total = 0\<rparr>"
  let ?b = "\<lparr>row_id = ''doc3'', row_values = [], row_total = 0\<rparr>"
  have k: "sortKey ?st = ''year''" by simp
  have c1: "metaChain ?st meta_year ''doc1'' = Some ''1994''"
    and c3: "metaChain ?st meta_year ''doc3'' = None"
    by (simp_all add: metaChain_def exampleState_def exampleMeta_def metaOfYear_def)
  have n: "Number_str ''1994'' = Fin 1994" by (simp add: Number_eval)
  have m1: "yearMissingOrFinite ?st (row_id ?a)" and m3: "yearMissingOrFinite ?st (row_id ?b)"
    using c1 c3 n by (simp_all add: yearMissingOrFinite_def)
  have d: "sortDir ?st = desc" by (simp add: exampleState_def)
  have y: "yearOrZero ?st ''doc1'' = 1994" "yearOrZero ?st ''doc3'' = 0"
    using c1 c3 n by (simp_all add: yearOrZero_def)
  have "docCompare compareBytes ?st [] ?a ?b = Fin (- 1994)"
    using conjunct1[OF year_sort_compares_numeric_years[OF k m1 m3, of compareBytes "[]"]]
    by (simp add: y d direction_def)
  then show ?thesis using k m1 m3 by simp
qed

text \<open>
  C8, as stated, fails for a non-numeric year: with \<^verbatim>\<open>doc1\<close> of year \<^verbatim>\<open>abc\<close> and
  \<^verbatim>\<open>doc2\<close> of 1988 the comparator yields \<^verbatim>\<open>NaN\<close>, which the sort reads as a tie, so
  the descending table keeps \<^verbatim>\<open>doc1\<close> first; a year counted as \<open>0\<close> would put
  \<^verbatim>\<open>doc1\<close> after \<^verbatim>\<open>doc2\<close>.
\<close>

theorem year_sort_non_numeric_counterexample:
  "docCompare compareBytes abcYearState []
     \<lparr>row_id = ''doc1'', row_values = [(''nature'', 3), (''war'', 0)], row_total = 3\<rparr>
     \<lparr>row_id = ''doc2'', row_values = [(''nature'', 5)], row_total = 5\<rparr> = NaN
   \<and> js_mul (direction (sortDir abcYearState))
        (Fin (yearOrZero abcYearState ''doc1'' - yearOrZero abcYearState ''doc2'')) = Fin 1988
   \<and> map_option (map row_id \<circ> tbl_rows) (evaluationTable compareBytes abcYearState)
     = Some [''doc1'', ''doc2'']"
proof -
  have c1: "metaChain abcYearState meta_year ''doc1'' = Some ''abc''"
    and c2: "metaChain abcYearState meta_year ''doc2'' = Some ''1988''"
    by (simp_all add: metaChain_def abcYearState_def exampleState_def metaOfYear_def)
  have n: "Number_str ''abc'' = NaN" "Number_str ''1988'' = Fin 1988"
    by (simp_all add: Number_eval)
  have k: "sortKey abcYearState = ''year''" "sortDir abcYearState = desc"
    "evaluateData abcYearState = Some exampleData" "\<not> aggregateByYear abcYearState"
    "totalThreshold abcYearState = 0"
    by (simp_all add: abcYearState_def exampleState_def)
  have v: "yearSortValue abcYearState ''doc1'' = NaN"
    "yearSortValue abcYearState ''doc2'' = Fin 1988"
    using c1 c2 n by (simp_all add: yearSortValue_def)
  have cmp: "docCompare compareBytes abcYearState ts a b
             = js_mul (Fin (- 1)) (js_sub (yearSortValue abcYearState (row_id a))
                                          (yearSortValue abcYearState (row_id b)))" for ts a b
    using k by (simp add: docCompare_def direction_def)
  have 1: "docCompare compareBytes abcYearState []
     \<lparr>row_id = ''doc1'', row_values = [(''nature'', 3), (''war'', 0)], row_total = 3\<rparr>
     \<lparr>row_id = ''doc2'', row_values = [(''nature'', 5)], row_total = 5\<rparr> = NaN"
    by (simp add: cmp v)
  have 2: "js_mul (direction (sortDir abcYearState))
        (Fin (yearOrZero abcYearState ''doc1'' - yearOrZero abcYearState ''doc2'')) = Fin 1988"
    using c1 c2 n k by (simp add: yearOrZero_def direction_def)
  have 3: "map_option (map row_id \<circ> tbl_rows) (evaluationTable compareBytes abcYearState)
     = Some [''doc1'', ''doc2'']"
    using k by (simp add: evaluationTable_def Let_def exampleData_def rowsWithTotals_def
        docRowsOf_def sort_js_def cmp v filtered_def)
  show ?thesis using 1 2 3 by (intro conjI)
qed

text \<open>
  C9 (amended). The descending comparator is the ascending comparator negated, in both
  modes and for every sort key. For a consistent collation and a list of distinct rows of
  which no two compare as equal under the ascending comparator, sorting ascending and then
  reversing gives exactly the descending sort.
\<close>

theorem descending_is_reversed_ascending:
  assumes "collation lc"
  shows "docCompare lc (st\<lparr>sortDir := desc\<rparr>) ts a b
         = js_neg (docCompare lc (st\<lparr>sortDir := asc\<rparr>) ts a b)
       \<and> topicCompare lc key desc cols yt a b = js_neg (topicCompare lc key asc cols yt a b)
       \<and> (distinct rows \<and> untied_on (set rows) (docCompare lc (st\<lparr>sortDir := asc\<rparr>) ts) \<longrightarrow>
            rev (sort_js (docCompare lc (st\<lparr>sortDir := asc\<rparr>) ts) rows)
            = sort_js (docCompare lc (st\<lparr>sortDir := desc\<rparr>) ts) rows)
       \<and> (distinct rows \<and> untied_on (set rows) (topicCompare lc key asc cols yt) \<longrightarrow>
            rev (sort_js (topicCompare lc key asc cols yt) rows)
            = sort_js (topicCompare lc key desc cols yt) rows)"
proof -
  have d: "docCompare lc (st\<lparr>sortDir := desc\<rparr>) ts
           = (\<lambda>a b. js_neg (docCompare lc (st\<lparr>sortDir := asc\<rparr>) ts a b))"
    by (intro ext) (rule docCompare_desc)
  have t: "topicCompare lc key desc cols yt
           = (\<lambda>a b. js_neg (topicCompare lc key asc cols yt a b))"
    by (intro ext) (rule topicCompare_desc)
  have 3: "rev (sort_js (docCompare lc (st\<lparr>sortDir := asc\<rparr>) ts) rows)
            = sort_js (docCompare lc (st\<lparr>sortDir := desc\<rparr>) ts) rows"
    if "distinct rows" "untied_on (set rows) (docCompare lc (st\<lparr>sortDir := asc\<rparr>) ts)"
    unfolding d by (rule rev_sort_js[OF consistent_docCompare[OF assms] that(2) that(1)])
  have 4: "rev (sort_js (topicCompare lc key asc cols yt) rows)
            = sort_js (topicCompare lc key desc cols yt) rows"
    if "distinct rows" "untied_on (set rows) (topicCompare lc key asc cols yt)"
    unfolding t by (rule rev_sort_js[OF consistent_topicCompare[OF assms] that(2) that(1)])
  show ?thesis
    using docCompare_desc[of lc st ts a b] topicCompare_desc[of lc key cols yt a b] 3 4
    by (intro conjI impI) (assumption | elim conjE)+
qed

theorem descending_is_reversed_ascending_witness:
  "collation compareBytes
   \<and> distinct (docRowsOf (rowsWithTotals exampleData))
   \<and> untied_on (set (docRowsOf (rowsWithTotals exampleData)))
        (docCompare compareBytes (exampleState\<lparr>sortDir := asc\<rparr>) [''nature'', ''war''])
   \<and> map row_id (rev (sort_js (docCompare compareBytes (exampleState\<lparr>sortDir := asc\<rparr>)
                                 [''nature'', ''war''])
                         (docRowsOf (rowsWithTotals exampleData))))
     = [''doc2'', ''doc1'']
   \<and> map row_id (sort_js (docCompare compareBytes (exampleState\<lparr>sortDir := desc\<rparr>)
                            [''nature'', ''war''])
                    (docRowsOf (rowsWithTotals exampleData)))
     = [''doc2'', ''doc1'']"
proof -
  let ?rows = "docRowsOf (rowsWithTotals exampleData)"
  let ?asc = "docCompare compareBytes (exampleState\<lparr>sortDir := asc\<rparr>) [''nature'', ''war'']"
  let ?desc = "docCompare compareBytes (exampleState\<lparr>sortDir := desc\<rparr>) [''nature'', ''war'']"
  have rows: "?rows = [\<lparr>row_id = ''doc1'', row_values = [(''nature'', 3), (''war'', 0)], row_total = 3\<rparr>,
                       \<lparr>row_id = ''doc2'', row_values = [(''nature'', 5)], row_total = 5\<rparr>]"
    by (simp add: exampleData_def docRowsOf_def rowsWithTotals_def sumValues_def)
  have cmp: "?asc a b = Fin (of_int (row_total a - row_total b))" for a b
    by (simp add: docCompare_def exampleState_def)
  have dist: "distinct ?rows"
    by (simp add: rows)
  have unt: "untied_on (set ?rows) ?asc"
    by (simp add: untied_on_def rows cmp)
  have eq: "rev (sort_js ?asc ?rows) = sort_js ?desc ?rows"
    using descending_is_reversed_ascending[OF collation_compareBytes,
        of exampleState "[''nature'', ''war'']" _ _ _ _ _ ?rows] dist unt
    by blast
  have "map row_id (rev (sort_js ?asc ?rows)) = [''doc2'', ''doc1'']"
    by (simp add: rows sort_js_def cmp)
  then show ?thesis
    using collation_compareBytes dist unt eq by simp
qed

text \<open>
  C9, as stated, fails when two rows tie: the sort is stable, so with two documents of
  equal total the ascending order reversed is \<^verbatim>\<open>doc2, doc1\<close>, while the descending
  order keeps \<^verbatim>\<open>doc1, doc2\<close>.
\<close>

theorem stable_sort_ties_counterexample:
  "map_option (rev \<circ> map row_id \<circ> tbl_rows)
     (evaluationTable compareBytes
        (exampleState\<lparr>evaluateData := Some [(''doc1'', [(''nature'', 3)]), (''doc2'', [(''nature'', 3)])],
                      sortDir := asc\<rparr>))
   = Some [''doc2'', ''doc1'']
   \<and> map_option (map row_id \<circ> tbl_rows)
     (evaluationTable compareBytes
        (exampleState\<lparr>evaluateData := Some [(''doc1'', [(''nature'', 3)]), (''doc2'', [(''nature'', 3)])],
                      sortDir := desc\<rparr>))
   = Some [''doc1'', ''doc2'']"
  by (simp add: evaluationTable_def exampleState_def topicsOf_def rowsWithTotals_def sumValues_def
      docRowsOf_def sort_js_def docCompare_def direction_def filtered_def)

text \<open>
  C7 (amended), for the revision with the \<^verbatim>\<open>Ukjent\<close> bin. The bin has the sort value
  \<open>-1\<close> and the year columns are sorted by ascending sort value, so when some document
  has no usable year and the usable years are not negative, the Unknown column is the
  first year column, ahead of every numeric bin. The counts of the documents without a
  usable year go to \<^verbatim>\<open>yearTotals['Ukjent']\<close> only: the denominator of every other
  bin is the one computed from the documents with a usable year.
\<close>

theorem ukjent_bin_sorts_first:
  assumes "0 < bs"
    and "\<forall>row \<in> set rwt. \<forall>y. yearValueOf m (docId row) = Fin y \<longrightarrow> 0 \<le> y"
    and "\<exists>row \<in> set rwt. \<not> hasYear m (docId row)"
  shows "(\<exists>rest. yearLabelsOf (yearBins (pivot_ukjent m bs ts rwt)) = ''Ukjent'' # rest)
       \<and> (\<forall>l. l \<noteq> ''Ukjent'' \<longrightarrow>
             lookup0 (yearTotals (pivot_ukjent m bs ts rwt)) l
             = lookup0 (yearTotals (pivot_ukjent m bs ts
                          (filter (\<lambda>row. hasYear m (docId row)) rwt))) l)"
proof -
  let ?st = "\<lparr>topicRows = emptyRows ts, yearTotals = [], yearBins = []\<rparr>"
  let ?yb = "yearBins (pivot_ukjent m bs ts rwt)"
  let ?cmp = "\<lambda>a b :: string \<times> int. Fin (of_int (snd a - snd b))"
  have mem: "(''Ukjent'', - 1) \<in> set ?yb"
    unfolding pivot_ukjent_def by (rule ukjent_added[OF assms(3)])
  have others: "snd (''Ukjent'', - 1 :: int) < snd e" if "e \<in> set ?yb" "e \<noteq> (''Ukjent'', - 1)" for e
  proof -
    obtain l s where e: "e = (l, s)" by (cases e)
    have "e \<in> set (binsOf m bs rwt)"
      using that yearBins_foldl_pivotDoc_ukjent[of m bs ?st rwt]
      by (auto simp: pivot_ukjent_def)
    then obtain row y where "row \<in> set rwt" "yearValueOf m (docId row) = Fin y" "s = binStart bs y"
      using binsOf_start e by blast
    then have "0 \<le> s" using assms(1,2) binStart_nonneg by blast
    then show ?thesis by (simp add: e)
  qed
  have "sort_js ?cmp ?yb \<noteq> [] \<and> hd (sort_js ?cmp ?yb) = (''Ukjent'', - 1)"
    using mem others by (intro min_first) auto
  then obtain rest where "sort_js ?cmp ?yb = (''Ukjent'', - 1) # rest"
    by (cases "sort_js ?cmp ?yb") auto
  then have 1: "\<exists>rest. yearLabelsOf ?yb = ''Ukjent'' # rest"
    by (simp add: yearLabelsOf_def)
  have 2: "lookup0 (yearTotals (pivot_ukjent m bs ts rwt)) l
             = lookup0 (yearTotals (pivot_ukjent m bs ts
                          (filter (\<lambda>row. hasYear m (docId row)) rwt))) l"
    if "l \<noteq> ''Ukjent''" for l
    unfolding pivot_ukjent_def by (rule foldl_pivotDoc_ukjent_sim[OF refl refl that])
  show ?thesis using 1 2 by (intro conjI allI impI)
qed

theorem ukjent_bin_sorts_first_witness:
  "(0 :: int) < 1
   \<and> yearValueOf exampleMeta ''doc1'' = Fin 1994
   \<and> yearValueOf exampleMeta ''doc2'' = Fin 1988
   \<and> yearValueOf exampleMeta ''doc3'' = NaN
   \<and> (\<exists>row \<in> set (rowsWithTotals (exampleData @ [(''doc3'', [(''nature'', 7)])])).
         \<not> hasYear exampleMeta (docId row))
   \<and> (\<exists>rest. yearLabelsOf (yearBins (pivot_ukjent exampleMeta 1 [''nature'', ''war'']
                  (rowsWithTotals (exampleData @ [(''doc3'', [(''nature'', 7)])]))))
               = ''Ukjent'' # rest)
   \<and> lookup0 (yearTotals (pivot_ukjent exampleMeta 1 [''nature'', ''war'']
                  (rowsWithTotals (exampleData @ [(''doc3'', [(''nature'', 7)])])))) ''1994''
     = lookup0 (yearTotals (pivot_ukjent exampleMeta 1 [''nature'', ''war'']
                  (rowsWithTotals exampleData))) ''1994''"
proof -
  let ?rwt = "rowsWithTotals (exampleData @ [(''doc3'', [(''nature'', 7)])])"
  have y: "yearValueOf exampleMeta ''doc1'' = Fin 1994" "yearValueOf exampleMeta ''doc2'' = Fin 1988"
    "yearValueOf exampleMeta ''doc3'' = NaN"
    by (simp_all add: yearValueOf_def exampleMeta_def metaOfYear_def Number_eval)
  have h0: "(0 :: int) < 1" by simp
  have h1: "\<forall>row \<in> set ?rwt. \<forall>y. yearValueOf exampleMeta (docId row) = Fin y \<longrightarrow> 0 \<le> y"
    using y by (simp add: rowsWithTotals_def exampleData_def)
  have h2: "\<exists>row \<in> set ?rwt. \<not> hasYear exampleMeta (docId row)"
    using y by (simp add: rowsWithTotals_def exampleData_def hasYear_def)
  have f: "filter (\<lambda>row. hasYear exampleMeta (docId row)) ?rwt = rowsWithTotals exampleData"
    using y by (simp add: rowsWithTotals_def exampleData_def hasYear_def)
  note t = ukjent_bin_sorts_first[OF h0 h1 h2, of "[''nature'', ''war'']"]
  have d: "lookup0 (yearTotals (pivot_ukjent exampleMeta 1 [''nature'', ''war''] ?rwt)) ''1994''
     = lookup0 (yearTotals (pivot_ukjent exampleMeta 1 [''nature'', ''war'']
                  (rowsWithTotals exampleData))) ''1994''"
    using conjunct2[OF t] unfolding f by simp
  show ?thesis
    using h0 y h2 conjunct1[OF t] d by (intro conjI)
qed

text \<open>
  C7, as stated, fails in that revision: with \<^verbatim>\<open>doc1\<close> of 1994, \<^verbatim>\<open>doc2\<close> of 1988
  and a third document without metadata, the year columns are \<^verbatim>\<open>Ukjent\<close>,
  \<^verbatim>\<open>1988\<close>, \<^verbatim>\<open>1994\<close>: the Unknown column is ahead of the numeric ones.
\<close>

theorem ukjent_column_first_counterexample:
  "yearLabelsOf (yearBins (pivot_ukjent exampleMeta 1 [''nature'', ''war'']
      (rowsWithTotals (exampleData @ [(''doc3'', [(''nature'', 7)])]))))
   = [''Ukjent'', ''1988'', ''1994'']"
proof -
  have y: "yearValueOf exampleMeta ''doc1'' = Fin 1994" "yearValueOf exampleMeta ''doc2'' = Fin 1988"
    "yearValueOf exampleMeta ''doc3'' = NaN"
    by (simp_all add: yearValueOf_def exampleMeta_def metaOfYear_def Number_eval)
  show ?thesis
    by (simp add: exampleData_def rowsWithTotals_def sumValues_def pivot_ukjent_def
        pivotDoc_ukjent_def getYearLabel_ukjent_def y label_eval Let_def emptyRows_def
        addCount_def yearLabelsOf_def sort_js_def)
qed

end
